theory Spec2Isabelle
  imports Complex_Main
begin

section \<open>Arrays and the numpy primitives used by \<open>bolt/expm.py\<close>\<close>

text \<open>
  The program works on numpy arrays of double precision numbers. An array is modelled by
  its shape and its entries in row-major order. Following the contract the specification
  gives for the linear-algebra library (exact arithmetic), a floating-point number is a
  real number: rounding, overflow to infinity and the range of \<open>float\<close> are not modelled
  for the entries of arrays and the norms computed from them, and arrays with complex
  entries are not modelled. Where the program would turn an infinity or a NaN that comes
  from a division by zero or from a logarithm into an exception (\<open>int\<close> of a
  non-finite number), the model returns that exception. Two places of the program take a
  number that is not read from an array, and there the range of doubles is modelled: the
  argument \<open>p\<close> of \<open>_onenorm_matrix_power_nnm\<close>, which can be an infinite float or a NaN,
  and the coefficient of \<open>_ell\<close>, converted from Python integers of any size.

  Python exceptions are values of the type \<open>error\<close>: \<open>ValueError\<close> is what the
  specification calls InvalidArgument, and \<open>LinAlgError\<close> (raised by
  \<open>np.linalg.solve\<close>) is what it calls NumericalFailure.
\<close>

datatype error = ValueError | LinAlgError | OverflowError | IndexError

record ndarray =
  shape :: "nat list"
  data :: "real list"

text \<open>The entry in row \<open>i\<close> and column \<open>j\<close> of a two-dimensional array.\<close>

definition entry :: "ndarray \<Rightarrow> nat \<Rightarrow> nat \<Rightarrow> real" where
  "entry A i j = data A ! (i * (shape A ! 1) + j)"

text \<open>The two-dimensional array with \<open>r\<close> rows and \<open>c\<close> columns whose entries are \<open>f i j\<close>.\<close>

definition mk :: "nat \<Rightarrow> nat \<Rightarrow> (nat \<Rightarrow> nat \<Rightarrow> real) \<Rightarrow> ndarray" where
  "mk r c f = \<lparr>shape = [r, c], data = map (\<lambda>k. f (k div c) (k mod c)) [0..<r * c]\<rparr>"

text \<open>\<open>np.ones((r, c))\<close>, \<open>np.eye(r, c)\<close> and \<open>A.T\<close> for a two-dimensional \<open>A\<close>.\<close>

definition ones :: "nat \<Rightarrow> nat \<Rightarrow> ndarray" where
  "ones r c = mk r c (\<lambda>i j. 1)"

definition eye :: "nat \<Rightarrow> nat \<Rightarrow> ndarray" where
  "eye r c = mk r c (\<lambda>i j. if i = j then 1 else 0)"

definition transpose_nd :: "ndarray \<Rightarrow> ndarray" where
  "transpose_nd A = mk (shape A ! 1) (shape A ! 0) (\<lambda>i j. entry A j i)"

text \<open>
  The matrix product of two two-dimensional arrays, and \<open>np.dot\<close>, which raises
  \<open>ValueError\<close> when the inner dimensions differ. \<open>np.dot\<close> is modelled on
  two-dimensional operands only: numpy has further cases for operands of other dimensions,
  which the program does not reach on a matrix, and no statement below rests on the value
  the model gives there.
\<close>

definition matmul :: "ndarray \<Rightarrow> ndarray \<Rightarrow> ndarray" where
  "matmul A B = mk (shape A ! 0) (shape B ! 1)
     (\<lambda>i j. \<Sum>k\<leftarrow>[0..<shape A ! 1]. entry A i k * entry B k j)"

definition dot :: "ndarray \<Rightarrow> ndarray \<Rightarrow> error + ndarray" where
  "dot A B =
     (if length (shape A) = 2 \<and> length (shape B) = 2 \<and> shape A ! 1 = shape B ! 0
      then Inr (matmul A B) else Inl ValueError)"

text \<open>
  Entrywise operations: \<open>c * A\<close>, \<open>-A\<close>, \<open>abs(A)\<close> and \<open>A + B\<close>. Every sum the program
  forms has operands of one shape (powers of \<open>A\<close> and the identity of the shape of \<open>A\<close>,
  all reached only after \<open>np.dot(A, A)\<close> has succeeded), which is the case modelled;
  numpy's broadcasting of operands of different shapes does not occur.
\<close>

definition smul :: "real \<Rightarrow> ndarray \<Rightarrow> ndarray" where
  "smul c A = A\<lparr>data := map (\<lambda>x. c * x) (data A)\<rparr>"

definition neg :: "ndarray \<Rightarrow> ndarray" where
  "neg A = A\<lparr>data := map uminus (data A)\<rparr>"

definition abs_nd :: "ndarray \<Rightarrow> ndarray" where
  "abs_nd A = A\<lparr>data := map abs (data A)\<rparr>"

definition add :: "ndarray \<Rightarrow> ndarray \<Rightarrow> ndarray" where
  "add A B = A\<lparr>data := map2 (+) (data A) (data B)\<rparr>"

text \<open>\<open>np.max\<close>: the largest entry; a reduction over an empty array raises \<open>ValueError\<close>.\<close>

definition amax :: "ndarray \<Rightarrow> error + real" where
  "amax v = (if data v = [] then Inl ValueError else Inr (Max (set (data v))))"

text \<open>Python's \<open>int(x)\<close> on a number: truncation towards zero.\<close>

definition py_int :: "real \<Rightarrow> int" where
  "py_int x = (if 0 \<le> x then \<lfloor>x\<rfloor> else \<lceil>x\<rceil>)"

text \<open>
  A Python number: an integer of any size, or a float, which is finite, an infinity or a
  NaN. \<open>int(p)\<close> raises \<open>OverflowError\<close> on an infinity and \<open>ValueError\<close> on a NaN.
  The comparisons \<open>k != p\<close> of an integer with a number and \<open>p < 0\<close> do not raise.
\<close>

datatype number = PyInt int | PyFloat real | PyInf | PyNegInf | PyNaN

definition int_of_number :: "number \<Rightarrow> error + int" where
  "int_of_number p =
     (case p of
        PyInt k \<Rightarrow> Inr k
      | PyFloat x \<Rightarrow> Inr (py_int x)
      | PyInf \<Rightarrow> Inl OverflowError
      | PyNegInf \<Rightarrow> Inl OverflowError
      | PyNaN \<Rightarrow> Inl ValueError)"

definition int_differs :: "int \<Rightarrow> number \<Rightarrow> bool" where
  "int_differs k p =
     (case p of
        PyInt j \<Rightarrow> k \<noteq> j
      | PyFloat x \<Rightarrow> of_int k \<noteq> x
      | PyInf \<Rightarrow> True
      | PyNegInf \<Rightarrow> True
      | PyNaN \<Rightarrow> True)"

definition negative :: "number \<Rightarrow> bool" where
  "negative p =
     (case p of
        PyInt j \<Rightarrow> j < 0
      | PyFloat x \<Rightarrow> x < 0
      | PyInf \<Rightarrow> False
      | PyNegInf \<Rightarrow> True
      | PyNaN \<Rightarrow> False)"

text \<open>
  The range of doubles. A Python integer of magnitude \<open>2^1024 - 2^970\<close> or more does not
  round to a double, and \<open>float(n)\<close> raises \<open>OverflowError\<close>; a product of two floats
  of that magnitude is an infinity, without an exception (\<open>None\<close> below). Within the
  range the double is taken to be the exact number.
\<close>

definition double_overflow :: real where
  "double_overflow = 2 ^ 1024 - 2 ^ 970"

definition py_float :: "int \<Rightarrow> error + real" where
  "py_float k = (if double_overflow \<le> \<bar>of_int k\<bar> then Inl OverflowError else Inr (of_int k))"

definition float_mult :: "real \<Rightarrow> real \<Rightarrow> real option" where
  "float_mult x y = (if double_overflow \<le> \<bar>x * y\<bar> then None else Some (x * y))"

section \<open>The norm of a power of a non-negative matrix\<close>

text \<open>The loop \<open>for i in range(p): v = M.dot(v)\<close>.\<close>

fun power_loop :: "nat \<Rightarrow> ndarray \<Rightarrow> ndarray \<Rightarrow> error + ndarray" where
  "power_loop 0 M v = Inr v"
| "power_loop (Suc k) M v =
     (case dot M v of Inl e \<Rightarrow> Inl e | Inr v' \<Rightarrow> power_loop k M v')"

text \<open>
  \<open>_onenorm_matrix_power_nnm(A, p)\<close>. The argument \<open>p\<close> is a Python number. The test
  \<open>int(p) != p or p < 0\<close> first evaluates \<open>int(p)\<close>, which can raise by itself.
\<close>

definition onenorm_matrix_power_nnm :: "ndarray \<Rightarrow> number \<Rightarrow> error + real" where
  "onenorm_matrix_power_nnm A p =
     (case int_of_number p of
        Inl e \<Rightarrow> Inl e
      | Inr k \<Rightarrow>
          if int_differs k p \<or> negative p then Inl ValueError
          else if length (shape A) \<noteq> 2 \<or> shape A ! 0 \<noteq> shape A ! 1 then Inl ValueError
          else
            (case power_loop (nat k) (transpose_nd A) (ones (shape A ! 0) 1) of
               Inl e \<Rightarrow> Inl e
             | Inr v \<Rightarrow> amax v))"

text \<open>
  The algorithm in the words of the specification: start with the column vector of ones,
  take \<open>M\<close> to be the transpose of \<open>A\<close>, replace \<open>v\<close> by \<open>M \<cdot> v\<close> exactly \<open>p\<close> times
  and return the largest entry of \<open>v\<close>.
\<close>

definition spec_onenorm_power :: "ndarray \<Rightarrow> nat \<Rightarrow> real" where
  "spec_onenorm_power A p =
     Max (set (data (((\<lambda>v. matmul (transpose_nd A) v) ^^ p) (ones (shape A ! 0) 1))))"

text \<open>
  A matrix of the specification's data model: a two-dimensional square array of dimension
  at least one. \<open>is_matrix r c A\<close> says that \<open>A\<close> has \<open>r\<close> rows and \<open>c\<close> columns and
  holds its \<open>r * c\<close> entries, \<open>square n A\<close> that it is such a matrix of dimension \<open>n\<close>.
\<close>

definition square_shape :: "ndarray \<Rightarrow> bool" where
  "square_shape A = (length (shape A) = 2 \<and> shape A ! 0 = shape A ! 1 \<and> 0 < shape A ! 0)"

definition is_matrix :: "nat \<Rightarrow> nat \<Rightarrow> ndarray \<Rightarrow> bool" where
  "is_matrix r c A = (shape A = [r, c] \<and> length (data A) = r * c)"

definition square :: "nat \<Rightarrow> ndarray \<Rightarrow> bool" where
  "square n A = (0 < n \<and> is_matrix n n A)"

text \<open>The zero matrix, and the powers of a square matrix as repeated products.\<close>

definition zeros :: "nat \<Rightarrow> nat \<Rightarrow> ndarray" where
  "zeros r c = mk r c (\<lambda>i j. 0)"

fun mpow :: "ndarray \<Rightarrow> nat \<Rightarrow> ndarray" where
  "mpow A 0 = eye (shape A ! 0) (shape A ! 0)"
| "mpow A (Suc k) = matmul A (mpow A k)"

section \<open>The one-norm and the truncation bound\<close>

text \<open>The one-norm of the specification: the largest sum of absolute values of a column.\<close>

definition max_abs_col_sum :: "ndarray \<Rightarrow> real" where
  "max_abs_col_sum A =
     Max (set (map (\<lambda>j. \<Sum>i\<leftarrow>[0..<shape A ! 0]. \<bar>entry A i j\<bar>) [0..<shape A ! 1]))"

text \<open>
  \<open>np.linalg.norm(A, 1)\<close>: for a two-dimensional array the largest column sum of absolute
  values (a reduction that raises on an array without columns), for a one-dimensional
  array the sum of the absolute values; other dimensions raise \<open>ValueError\<close>.
\<close>

definition linalg_norm_1 :: "ndarray \<Rightarrow> error + real" where
  "linalg_norm_1 A =
     (if length (shape A) = 2 then
        (if shape A ! 1 = 0 then Inl ValueError
         else Inr (Max (set (map (\<lambda>j. \<Sum>i\<leftarrow>[0..<shape A ! 0]. \<bar>entry A i j\<bar>)
                                 [0..<shape A ! 1]))))
      else if length (shape A) = 1 then Inr (\<Sum>x\<leftarrow>data A. \<bar>x\<bar>)
      else Inl ValueError)"

definition onenorm :: "ndarray \<Rightarrow> error + real" where
  "onenorm A = linalg_norm_1 A"

text \<open>
  \<open>_ell(A, m)\<close>. \<open>math.comb\<close> raises \<open>ValueError\<close> on a negative argument. The
  coefficient \<open>float(choose_2m_m) * float(math.factorial(2 * m + 1))\<close> is computed from
  Python integers: each conversion raises \<open>OverflowError\<close> beyond the range of doubles
  (the factorial from \<open>m = 85\<close> on), and the product of the two floats is an infinity
  beyond it (from \<open>m = 75\<close> on). With an infinite coefficient the divisor is an infinity
  (a NaN when the norm is zero), \<open>alpha\<close> is zero, its logarithm is \<open>-inf\<close> and \<open>int\<close>
  raises \<open>OverflowError\<close> (\<open>ValueError\<close> on the NaN).

  The quotients are quotients of numpy floats, which do not raise on a zero divisor but
  give an infinity or a NaN, and \<open>int\<close> of those raises \<open>OverflowError\<close> or
  \<open>ValueError\<close>; the same holds for the logarithm of zero or of a negative number.

  The two norms are those the exact-arithmetic library returns: a norm beyond the range
  of doubles, which is an infinity in the program and makes \<open>int\<close> raise, is not
  modelled, nor is a quotient that leaves the range. The statements below that say what
  \<open>_ell\<close> alone returns exclude these arguments by hypothesis (\<open>ell_in_range\<close>).
\<close>

definition ell :: "ndarray \<Rightarrow> int \<Rightarrow> error + int" where
  "ell A m =
     (if m < 0 then Inl ValueError
      else
        let choose_2m_m = (nat (2 * m)) choose (nat m) in
        (case py_float (int choose_2m_m) of Inl e \<Rightarrow> Inl e | Inr c1 \<Rightarrow>
        (case py_float (int (fact (nat (2 * m + 1)))) of Inl e \<Rightarrow> Inl e | Inr c2 \<Rightarrow>
         let abs_c_recip = float_mult c1 c2;
             u = 2 powi (- 53)
         in
          (case onenorm_matrix_power_nnm (abs_nd A) (PyInt (2 * m + 1)) of
             Inl e \<Rightarrow> Inl e
           | Inr A_abs_onenorm \<Rightarrow>
               if A_abs_onenorm = 0 then Inr 0
               else
                 (case onenorm A of
                    Inl e \<Rightarrow> Inl e
                  | Inr norm_A \<Rightarrow>
                     (case abs_c_recip of
                        None \<Rightarrow> (if norm_A = 0 then Inl ValueError else Inl OverflowError)
                      | Some c \<Rightarrow>
                          if norm_A * c = 0
                          then (if 0 < A_abs_onenorm then Inl OverflowError
                                else Inl ValueError)
                          else
                            let alpha = A_abs_onenorm / (norm_A * c) in
                            if alpha / u < 0 then Inl ValueError
                            else if alpha / u = 0 then Inl OverflowError
                            else
                              let log2_alpha_div_u = log 2 (alpha / u) in
                              if m = 0
                              then (if log2_alpha_div_u = 0 then Inl ValueError
                                    else Inl OverflowError)
                              else
                                let value = \<lceil>log2_alpha_div_u / of_int (2 * m)\<rceil>
                                in Inr (max value 0)))))))"

section \<open>The helper class and its cached powers and bounds\<close>

text \<open>
  \<open>_smart_matrix_product\<close> ignores its structure hint. The object \<open>_ExpmPadeHelper\<close>
  is a record; a field that holds \<open>None\<close> until it is first computed is an option.
  Every property and method of the class that may fill a field takes the object and
  returns its result with the updated object, or the exception raised.
\<close>

definition smart_matrix_product :: "ndarray \<Rightarrow> ndarray \<Rightarrow> string option \<Rightarrow> error + ndarray" where
  "smart_matrix_product X Y structure = dot X Y"

record helper =
  self_A :: ndarray
  self_A2 :: "ndarray option"
  self_A4 :: "ndarray option"
  self_A6 :: "ndarray option"
  self_A8 :: "ndarray option"
  self_A10 :: "ndarray option"
  self_d4_exact :: "real option"
  self_d6_exact :: "real option"
  self_d8_exact :: "real option"
  self_d10_exact :: "real option"
  self_d4_approx :: "real option"
  self_d6_approx :: "real option"
  self_d8_approx :: "real option"
  self_d10_approx :: "real option"
  self_ident :: ndarray
  self_structure :: "string option"
  self_use_exact_onenorm :: bool

type_synonym 'a access = "helper \<Rightarrow> error + 'a \<times> helper"

definition bind :: "'a access \<Rightarrow> ('a \<Rightarrow> 'b access) \<Rightarrow> 'b access" where
  "bind m f h = (case m h of Inl e \<Rightarrow> Inl e | Inr (x, h') \<Rightarrow> f x h')"

definition lift :: "error + 'a \<Rightarrow> 'a access" where
  "lift r h = (case r of Inl e \<Rightarrow> Inl e | Inr x \<Rightarrow> Inr (x, h))"

text \<open>\<open>__init__\<close>: indexing the shape of an array of fewer than two dimensions raises.\<close>

definition init :: "ndarray \<Rightarrow> bool \<Rightarrow> error + helper" where
  "init M use_exact_onenorm =
     (if length (shape M) < 2 then Inl IndexError
      else Inr \<lparr>self_A = M, self_A2 = None, self_A4 = None, self_A6 = None,
                self_A8 = None, self_A10 = None,
                self_d4_exact = None, self_d6_exact = None, self_d8_exact = None,
                self_d10_exact = None,
                self_d4_approx = None, self_d6_approx = None, self_d8_approx = None,
                self_d10_approx = None,
                self_ident = eye (shape M ! 0) (shape M ! 1),
                self_structure = None,
                self_use_exact_onenorm = use_exact_onenorm\<rparr>)"

definition A2 :: "ndarray access" where
  "A2 h =
     (case self_A2 h of
        Some P \<Rightarrow> Inr (P, h)
      | None \<Rightarrow>
          bind (lift (smart_matrix_product (self_A h) (self_A h) (self_structure h)))
            (\<lambda>P h'. Inr (P, h'\<lparr>self_A2 := Some P\<rparr>)) h)"

definition A4 :: "ndarray access" where
  "A4 h =
     (case self_A4 h of
        Some P \<Rightarrow> Inr (P, h)
      | None \<Rightarrow>
          bind A2 (\<lambda>X. bind A2 (\<lambda>Y h'.
            bind (lift (smart_matrix_product X Y (self_structure h')))
              (\<lambda>P h''. Inr (P, h''\<lparr>self_A4 := Some P\<rparr>)) h')) h)"

definition A6 :: "ndarray access" where
  "A6 h =
     (case self_A6 h of
        Some P \<Rightarrow> Inr (P, h)
      | None \<Rightarrow>
          bind A4 (\<lambda>X. bind A2 (\<lambda>Y h'.
            bind (lift (smart_matrix_product X Y (self_structure h')))
              (\<lambda>P h''. Inr (P, h''\<lparr>self_A6 := Some P\<rparr>)) h')) h)"

definition A8 :: "ndarray access" where
  "A8 h =
     (case self_A8 h of
        Some P \<Rightarrow> Inr (P, h)
      | None \<Rightarrow>
          bind A6 (\<lambda>X. bind A2 (\<lambda>Y h'.
            bind (lift (smart_matrix_product X Y (self_structure h')))
              (\<lambda>P h''. Inr (P, h''\<lparr>self_A8 := Some P\<rparr>)) h')) h)"

definition A10 :: "ndarray access" where
  "A10 h =
     (case self_A10 h of
        Some P \<Rightarrow> Inr (P, h)
      | None \<Rightarrow>
          bind A4 (\<lambda>X. bind A6 (\<lambda>Y h'.
            bind (lift (smart_matrix_product X Y (self_structure h')))
              (\<lambda>P h''. Inr (P, h''\<lparr>self_A10 := Some P\<rparr>)) h')) h)"

text \<open>
  The bounds \<open>_onenorm(self.A4) ** (1 / 4.0)\<close> and so on. The base is a norm, never
  negative, where Python's power of a float and \<open>powr\<close> agree.
\<close>

definition d4_tight :: "real access" where
  "d4_tight h =
     (case self_d4_exact h of
        Some d \<Rightarrow> Inr (d, h)
      | None \<Rightarrow>
          bind A4 (\<lambda>X. bind (lift (onenorm X))
            (\<lambda>x h'. Inr (x powr (1 / 4), h'\<lparr>self_d4_exact := Some (x powr (1 / 4))\<rparr>))) h)"

definition d6_tight :: "real access" where
  "d6_tight h =
     (case self_d6_exact h of
        Some d \<Rightarrow> Inr (d, h)
      | None \<Rightarrow>
          bind A6 (\<lambda>X. bind (lift (onenorm X))
            (\<lambda>x h'. Inr (x powr (1 / 6), h'\<lparr>self_d6_exact := Some (x powr (1 / 6))\<rparr>))) h)"

definition d8_tight :: "real access" where
  "d8_tight h =
     (case self_d8_exact h of
        Some d \<Rightarrow> Inr (d, h)
      | None \<Rightarrow>
          bind A8 (\<lambda>X. bind (lift (onenorm X))
            (\<lambda>x h'. Inr (x powr (1 / 8), h'\<lparr>self_d8_exact := Some (x powr (1 / 8))\<rparr>))) h)"

definition d10_tight :: "real access" where
  "d10_tight h =
     (case self_d10_exact h of
        Some d \<Rightarrow> Inr (d, h)
      | None \<Rightarrow>
          bind A10 (\<lambda>X. bind (lift (onenorm X))
            (\<lambda>x h'. Inr (x powr (1 / 10), h'\<lparr>self_d10_exact := Some (x powr (1 / 10))\<rparr>))) h)"

definition d4_loose :: "real access" where
  "d4_loose h = d4_tight h"

definition d6_loose :: "real access" where
  "d6_loose h = d6_tight h"

definition d8_loose :: "real access" where
  "d8_loose h = d8_tight h"

definition d10_loose :: "real access" where
  "d10_loose h = d10_tight h"

section \<open>The Pade numerators and denominators\<close>

text \<open>The coefficient tuples \<open>b\<close> of the five Pade evaluators.\<close>

definition pade3_b :: "real list" where
  "pade3_b = [120, 60, 12, 1]"

definition pade5_b :: "real list" where
  "pade5_b = [30240, 15120, 3360, 420, 30, 1]"

definition pade7_b :: "real list" where
  "pade7_b = [17297280, 8648640, 1995840, 277200, 25200, 1512, 56, 1]"

definition pade9_b :: "real list" where
  "pade9_b = [17643225600, 8821612800, 2075673600, 302702400, 30270240, 2162160,
              110880, 3960, 90, 1]"

definition pade13_b :: "real list" where
  "pade13_b = [64764752532480000, 32382376266240000, 7771770303897600,
               1187353796428800, 129060195264000, 10559470521600, 670442572800,
               33522128640, 1323241920, 40840800, 960960, 16380, 182, 1]"

definition pade3 :: "(ndarray \<times> ndarray) access" where
  "pade3 h =
     (let b = pade3_b in
      bind A2 (\<lambda>X2 h1.
      bind (lift (smart_matrix_product (self_A h1)
                    (add (smul (b ! 3) X2) (smul (b ! 1) (self_ident h1)))
                    (self_structure h1))) (\<lambda>U.
      bind A2 (\<lambda>Y2 h2.
      Inr ((U, add (smul (b ! 2) Y2) (smul (b ! 0) (self_ident h2))), h2))) h1) h)"

definition pade5 :: "(ndarray \<times> ndarray) access" where
  "pade5 h =
     (let b = pade5_b in
      bind A4 (\<lambda>X4. bind A2 (\<lambda>X2 h1.
      bind (lift (smart_matrix_product (self_A h1)
                    (add (add (smul (b ! 5) X4) (smul (b ! 3) X2))
                         (smul (b ! 1) (self_ident h1)))
                    (self_structure h1))) (\<lambda>U.
      bind A4 (\<lambda>Y4. bind A2 (\<lambda>Y2 h2.
      Inr ((U, add (add (smul (b ! 4) Y4) (smul (b ! 2) Y2))
                   (smul (b ! 0) (self_ident h2))), h2)))) h1)) h)"

definition pade7 :: "(ndarray \<times> ndarray) access" where
  "pade7 h =
     (let b = pade7_b in
      bind A6 (\<lambda>X6. bind A4 (\<lambda>X4. bind A2 (\<lambda>X2 h1.
      bind (lift (smart_matrix_product (self_A h1)
                    (add (add (add (smul (b ! 7) X6) (smul (b ! 5) X4)) (smul (b ! 3) X2))
                         (smul (b ! 1) (self_ident h1)))
                    (self_structure h1))) (\<lambda>U.
      bind A6 (\<lambda>Y6. bind A4 (\<lambda>Y4. bind A2 (\<lambda>Y2 h2.
      Inr ((U, add (add (add (smul (b ! 6) Y6) (smul (b ! 4) Y4)) (smul (b ! 2) Y2))
                   (smul (b ! 0) (self_ident h2))), h2))))) h1))) h)"

definition pade9 :: "(ndarray \<times> ndarray) access" where
  "pade9 h =
     (let b = pade9_b in
      bind A8 (\<lambda>X8. bind A6 (\<lambda>X6. bind A4 (\<lambda>X4. bind A2 (\<lambda>X2 h1.
      bind (lift (smart_matrix_product (self_A h1)
                    (add (add (add (add (smul (b ! 9) X8) (smul (b ! 7) X6))
                                   (smul (b ! 5) X4)) (smul (b ! 3) X2))
                         (smul (b ! 1) (self_ident h1)))
                    (self_structure h1))) (\<lambda>U.
      bind A8 (\<lambda>Y8. bind A6 (\<lambda>Y6. bind A4 (\<lambda>Y4. bind A2 (\<lambda>Y2 h2.
      Inr ((U, add (add (add (add (smul (b ! 8) Y8) (smul (b ! 6) Y6))
                             (smul (b ! 4) Y4)) (smul (b ! 2) Y2))
                   (smul (b ! 0) (self_ident h2))), h2)))))) h1)))) h)"

text \<open>
  \<open>pade13_scaled(s)\<close>, with \<open>s\<close> a Python integer; \<open>2 ** -s\<close> is \<open>2 powi (- s)\<close>.
\<close>

definition pade13_scaled :: "int \<Rightarrow> (ndarray \<times> ndarray) access" where
  "pade13_scaled s h =
     (let b = pade13_b;
          B = smul (2 powi (- s)) (self_A h) in
      bind A2 (\<lambda>X2. let B2 = smul (2 powi (- 2 * s)) X2 in
      bind A4 (\<lambda>X4. let B4 = smul (2 powi (- 4 * s)) X4 in
      bind A6 (\<lambda>X6 h1. let B6 = smul (2 powi (- 6 * s)) X6 in
      bind (lift (smart_matrix_product B6
                    (add (add (smul (b ! 13) B6) (smul (b ! 11) B4)) (smul (b ! 9) B2))
                    (self_structure h1))) (\<lambda>U2 h2.
      bind (lift (smart_matrix_product B
                    (add (add (add (add U2 (smul (b ! 7) B6)) (smul (b ! 5) B4))
                              (smul (b ! 3) B2))
                         (smul (b ! 1) (self_ident h2)))
                    (self_structure h2))) (\<lambda>U h3.
      bind (lift (smart_matrix_product B6
                    (add (add (smul (b ! 12) B6) (smul (b ! 10) B4)) (smul (b ! 8) B2))
                    (self_structure h3))) (\<lambda>V2 h4.
      Inr ((U, add (add (add (add V2 (smul (b ! 6) B6)) (smul (b ! 4) B4))
                        (smul (b ! 2) B2))
                   (smul (b ! 0) (self_ident h4))), h4)) h3) h2) h1))) h)"

section \<open>The linear solve\<close>

text \<open>
  Modelled from the spec: \<open>np.linalg.solve(a, b)\<close> is a routine of numpy; its code is not
  among the sources. The specification treats the linear-algebra library as a
  collaborator with the contract of exact arithmetic and a solve of \<open>A \<cdot> X = B\<close> that
  fails with NumericalFailure if the matrix is singular, and the definition is that
  contract: \<open>LinAlgError\<close> when \<open>a\<close> is not square or has no inverse, \<open>ValueError\<close>
  when the shapes of \<open>a\<close> and \<open>b\<close> do not fit, and otherwise the array \<open>x\<close> of the shape
  of \<open>b\<close> with \<open>a \<cdot> x = b\<close>. The floating-point routine is not this function: it
  raises when its factorisation meets a pivot that is exactly zero, which rounding can
  produce on a matrix with an inverse and can miss on a matrix without one. Nothing below
  states when the routine of numpy raises.
\<close>

definition invertible :: "ndarray \<Rightarrow> bool" where
  "invertible Q =
     (\<exists>R. shape R = shape Q \<and> length (data R) = length (data Q) \<and>
          matmul Q R = eye (shape Q ! 0) (shape Q ! 0) \<and>
          matmul R Q = eye (shape Q ! 0) (shape Q ! 0))"

definition singular :: "ndarray \<Rightarrow> bool" where
  "singular Q = (\<not> invertible Q)"

definition linalg_solve :: "ndarray \<Rightarrow> ndarray \<Rightarrow> error + ndarray" where
  "linalg_solve a b =
     (if length (shape a) \<noteq> 2 \<or> shape a ! 0 \<noteq> shape a ! 1 then Inl LinAlgError
      else if length (shape b) \<noteq> 2 \<or> shape b ! 0 \<noteq> shape a ! 0 then Inl ValueError
      else if singular a then Inl LinAlgError
      else Inr (THE x. shape x = shape b \<and> length (data x) = length (data b) \<and>
                       matmul a x = b))"

definition solve_P_Q :: "ndarray \<Rightarrow> ndarray \<Rightarrow> string option \<Rightarrow> error + ndarray" where
  "solve_P_Q U V structure =
     (let P = add U V;
          Q = add (neg U) V
      in linalg_solve Q P)"

section \<open>The driver\<close>

text \<open>The loop \<open>for i in range(s): X = X.dot(X)\<close>.\<close>

fun squarings :: "nat \<Rightarrow> ndarray \<Rightarrow> error + ndarray" where
  "squarings 0 X = Inr X"
| "squarings (Suc k) X = (case dot X X of Inl e \<Rightarrow> Inl e | Inr Y \<Rightarrow> squarings k Y)"

text \<open>
  The test \<open>eta < theta and _ell(h.A, m) == 0\<close>: the call of \<open>_ell\<close> is made, and can
  raise, only when the first comparison holds.
\<close>

definition try_order :: "real \<Rightarrow> real \<Rightarrow> ndarray \<Rightarrow> int \<Rightarrow> error + bool" where
  "try_order eta theta M m =
     (if eta < theta then (case ell M m of Inl e \<Rightarrow> Inl e | Inr l \<Rightarrow> Inr (l = 0))
      else Inr False)"

text \<open>
  The scaling exponent \<open>max(int(np.ceil(np.log2(eta_5 / theta_13))), 0)\<close>; the logarithm
  of a negative number is a NaN, on which \<open>int\<close> raises.
\<close>

definition scaling_exponent :: "real \<Rightarrow> real \<Rightarrow> error + int" where
  "scaling_exponent eta_5 theta_13 =
     (if eta_5 = 0 then Inr 0
      else if eta_5 / theta_13 < 0 then Inl ValueError
      else Inr (max (py_int (of_int \<lceil>log 2 (eta_5 / theta_13)\<rceil>)) 0))"

definition expm :: "ndarray \<Rightarrow> error + ndarray" where
  "expm M =
     (case init M True of Inl e \<Rightarrow> Inl e | Inr h \<Rightarrow>
      (case d4_loose h of Inl e \<Rightarrow> Inl e | Inr (d4l, h) \<Rightarrow>
      (case d6_loose h of Inl e \<Rightarrow> Inl e | Inr (d6l, h) \<Rightarrow>
       let eta_1 = max d4l d6l in
      (case try_order eta_1 0.01495585217958292 (self_A h) 3 of Inl e \<Rightarrow> Inl e
       | Inr True \<Rightarrow>
           (case pade3 h of Inl e \<Rightarrow> Inl e | Inr ((U, V), h) \<Rightarrow> solve_P_Q U V None)
       | Inr False \<Rightarrow>
      (case d4_tight h of Inl e \<Rightarrow> Inl e | Inr (d4t, h) \<Rightarrow>
      (case d6_loose h of Inl e \<Rightarrow> Inl e | Inr (d6l', h) \<Rightarrow>
       let eta_2 = max d4t d6l' in
      (case try_order eta_2 0.2539398330063230 (self_A h) 5 of Inl e \<Rightarrow> Inl e
       | Inr True \<Rightarrow>
           (case pade5 h of Inl e \<Rightarrow> Inl e | Inr ((U, V), h) \<Rightarrow> solve_P_Q U V None)
       | Inr False \<Rightarrow>
      (case d6_tight h of Inl e \<Rightarrow> Inl e | Inr (d6t, h) \<Rightarrow>
      (case d8_loose h of Inl e \<Rightarrow> Inl e | Inr (d8l, h) \<Rightarrow>
       let eta_3 = max d6t d8l in
      (case try_order eta_3 0.9504178996162932 (self_A h) 7 of Inl e \<Rightarrow> Inl e
       | Inr True \<Rightarrow>
           (case pade7 h of Inl e \<Rightarrow> Inl e | Inr ((U, V), h) \<Rightarrow> solve_P_Q U V None)
       | Inr False \<Rightarrow>
      (case try_order eta_3 2.097847961257068 (self_A h) 9 of Inl e \<Rightarrow> Inl e
       | Inr True \<Rightarrow>
           (case pade9 h of Inl e \<Rightarrow> Inl e | Inr ((U, V), h) \<Rightarrow> solve_P_Q U V None)
       | Inr False \<Rightarrow>
      (case d8_loose h of Inl e \<Rightarrow> Inl e | Inr (d8l', h) \<Rightarrow>
      (case d10_loose h of Inl e \<Rightarrow> Inl e | Inr (d10l, h) \<Rightarrow>
       let eta_4 = max d8l' d10l;
           eta_5 = min eta_3 eta_4;
           theta_13 = 4.25 in
      (case scaling_exponent eta_5 theta_13 of Inl e \<Rightarrow> Inl e | Inr s0 \<Rightarrow>
      (case ell (smul (2 powi (- s0)) (self_A h)) 13 of Inl e \<Rightarrow> Inl e | Inr l \<Rightarrow>
       let s = s0 + l in
      (case pade13_scaled s h of Inl e \<Rightarrow> Inl e | Inr ((U, V), h) \<Rightarrow>
      (case solve_P_Q U V None of Inl e \<Rightarrow> Inl e | Inr X \<Rightarrow>
       squarings (nat s) X)))))))))))))))))"

section \<open>The algorithm in the words of the specification\<close>

text \<open>
  The truncation bound in the words of the specification, with \<open>c\<close> the product of the central
  binomial coefficient and the factorial, and \<open>u\<close> the unit roundoff.
\<close>

definition ell_coeff :: "int \<Rightarrow> real" where
  "ell_coeff m = real ((nat (2 * m)) choose (nat m)) * real (fact (nat (2 * m + 1)))"

definition spec_ell :: "ndarray \<Rightarrow> int \<Rightarrow> int" where
  "spec_ell A m =
     (let c = ell_coeff m;
          normAbsPower = spec_onenorm_power (abs_nd A) (nat (2 * m + 1));
          u = 2 powi (- 53)
      in if normAbsPower = 0 then 0
         else let alpha = normAbsPower / (max_abs_col_sum A * c)
              in max \<lceil>log 2 (alpha / u) / of_int (2 * m)\<rceil> 0)"

text \<open>
  The bound \<open>d_k = onenorm(A^k)^(1/k)\<close> of the specification, on the power of \<open>A\<close> as a
  repeated product.
\<close>

definition tight_bound :: "ndarray \<Rightarrow> nat \<Rightarrow> real" where
  "tight_bound M k = max_abs_col_sum (mpow M k) powr (1 / real k)"

text \<open>
  The states the helper object of a matrix \<open>M\<close> can be in: every field that has been
  filled holds the power or the bound of \<open>M\<close> it stands for. \<open>returns M m v\<close> says that
  the property or method \<open>m\<close>, called on such an object, does not raise, returns \<open>v\<close> and
  leaves such an object.
\<close>

definition cached :: "ndarray \<Rightarrow> helper \<Rightarrow> bool" where
  "cached M h =
     (self_A h = M \<and> self_ident h = eye (shape M ! 0) (shape M ! 1) \<and>
      (\<forall>X. self_A2 h = Some X \<longrightarrow> X = mpow M 2) \<and>
      (\<forall>X. self_A4 h = Some X \<longrightarrow> X = mpow M 4) \<and>
      (\<forall>X. self_A6 h = Some X \<longrightarrow> X = mpow M 6) \<and>
      (\<forall>X. self_A8 h = Some X \<longrightarrow> X = mpow M 8) \<and>
      (\<forall>X. self_A10 h = Some X \<longrightarrow> X = mpow M 10) \<and>
      (\<forall>d. self_d4_exact h = Some d \<longrightarrow> d = tight_bound M 4) \<and>
      (\<forall>d. self_d6_exact h = Some d \<longrightarrow> d = tight_bound M 6) \<and>
      (\<forall>d. self_d8_exact h = Some d \<longrightarrow> d = tight_bound M 8) \<and>
      (\<forall>d. self_d10_exact h = Some d \<longrightarrow> d = tight_bound M 10))"

definition returns :: "ndarray \<Rightarrow> 'a access \<Rightarrow> 'a \<Rightarrow> bool" where
  "returns M m v = (\<forall>h. cached M h \<longrightarrow> (\<exists>h'. m h = Inr (v, h') \<and> cached M h'))"

text \<open>
  The numerator and denominator of the specification for the degrees 3, 5, 7 and 9:
  \<open>U = A \<cdot> (b[d] A^(d-1) + \<dots> + b[3] A^2 + b[1] I)\<close> and
  \<open>V = b[d-1] A^(d-1) + \<dots> + b[2] A^2 + b[0] I\<close>, summed from the highest power down.
\<close>

definition pade_b :: "nat \<Rightarrow> real list" where
  "pade_b d = (if d = 3 then pade3_b else if d = 5 then pade5_b
               else if d = 7 then pade7_b else if d = 9 then pade9_b else pade13_b)"

definition pade_sum :: "real list \<Rightarrow> nat \<Rightarrow> nat \<Rightarrow> ndarray \<Rightarrow> ndarray" where
  "pade_sum b par q M =
     foldl add (smul (b ! (2 * q + par)) (mpow M (2 * q)))
       (map (\<lambda>j. smul (b ! (2 * j + par)) (mpow M (2 * j))) (rev [0..<q]))"

definition spec_pade :: "nat \<Rightarrow> ndarray \<Rightarrow> ndarray \<times> ndarray" where
  "spec_pade d M =
     (let b = pade_b d; q = (d - 1) div 2
      in (matmul M (pade_sum b 1 q M), pade_sum b 0 q M))"

text \<open>
  The degree 13 evaluator of the specification, on the powers of the scaled matrix
  \<open>B = 2^-s \<cdot> A\<close>.
\<close>

definition spec_pade13 :: "ndarray \<Rightarrow> int \<Rightarrow> ndarray \<times> ndarray" where
  "spec_pade13 M s =
     (let b = pade13_b;
          B = smul (2 powi (- s)) M;
          B2 = mpow B 2; B4 = mpow B 4; B6 = mpow B 6;
          I = eye (shape M ! 0) (shape M ! 1);
          U2 = matmul B6 (add (add (smul (b ! 13) B6) (smul (b ! 11) B4)) (smul (b ! 9) B2));
          U = matmul B (add (add (add (add U2 (smul (b ! 7) B6)) (smul (b ! 5) B4))
                                 (smul (b ! 3) B2)) (smul (b ! 1) I));
          V2 = matmul B6 (add (add (smul (b ! 12) B6) (smul (b ! 10) B4)) (smul (b ! 8) B2));
          V = add (add (add (add V2 (smul (b ! 6) B6)) (smul (b ! 4) B4))
                       (smul (b ! 2) B2)) (smul (b ! 0) I)
      in (U, V))"

text \<open>
  The ordered decision sequence of the specification, the scaling exponent of its degree
  13 branch, and the whole driver: the linear solve of the chosen evaluator, followed for
  degree 13 by \<open>s\<close> squarings.
\<close>

definition spec_degree :: "ndarray \<Rightarrow> nat" where
  "spec_degree M =
     (let d4 = tight_bound M 4; d6 = tight_bound M 6; d8 = tight_bound M 8 in
      if max d4 d6 < 0.01495585217958292 \<and> spec_ell M 3 = 0 then 3
      else if max d4 d6 < 0.2539398330063230 \<and> spec_ell M 5 = 0 then 5
      else if max d6 d8 < 0.9504178996162932 \<and> spec_ell M 7 = 0 then 7
      else if max d6 d8 < 2.097847961257068 \<and> spec_ell M 9 = 0 then 9
      else 13)"

definition spec_scaling :: "ndarray \<Rightarrow> int" where
  "spec_scaling M =
     (let d6 = tight_bound M 6; d8 = tight_bound M 8; d10 = tight_bound M 10;
          eta5 = min (max d6 d8) (max d8 d10);
          theta13 = 4.25;
          s = (if eta5 = 0 then 0 else max \<lceil>log 2 (eta5 / theta13)\<rceil> 0)
      in s + spec_ell (smul (2 powi (- s)) M) 13)"

definition spec_expm :: "ndarray \<Rightarrow> error + ndarray" where
  "spec_expm M =
     (let d = spec_degree M in
      if d = 13 then
        (let s = spec_scaling M; UV = spec_pade13 M s in
         case solve_P_Q (fst UV) (snd UV) None of
           Inl e \<Rightarrow> Inl e
         | Inr X \<Rightarrow> Inr (((\<lambda>X. matmul X X) ^^ nat s) X))
      else solve_P_Q (fst (spec_pade d M)) (snd (spec_pade d M)) None)"

text \<open>
  A non-negative integer among the Python numbers, and the arguments of \<open>_ell\<close> on
  which no double of the program leaves the range of doubles: every entry of every
  vector of the power iteration, the divisor, \<open>alpha\<close> and \<open>alpha / u\<close> are zero or
  lie between the smallest positive double and the overflow threshold.
\<close>

definition nonneg_integer :: "number \<Rightarrow> bool" where
  "nonneg_integer p =
     (case p of
        PyInt j \<Rightarrow> 0 \<le> j
      | PyFloat x \<Rightarrow> of_int \<lfloor>x\<rfloor> = x \<and> 0 \<le> x
      | PyInf \<Rightarrow> False
      | PyNegInf \<Rightarrow> False
      | PyNaN \<Rightarrow> False)"




section \<open>Properties of the array operations\<close>

lemma shape_mk [simp]: "shape (mk r c f) = [r, c]"
  by (simp add: mk_def)

lemma length_data_mk [simp]: "length (data (mk r c f)) = r * c"
  by (simp add: mk_def)

lemma is_matrix_mk [simp]: "is_matrix r c (mk r c f)"
  by (simp add: is_matrix_def)

lemma index_bound: "i < r \<Longrightarrow> j < c \<Longrightarrow> i * c + j < r * (c::nat)"
proof -
  assume a: "i < r" "j < c"
  then have "i * c + j < i * c + c" by simp
  also have "\<dots> = (Suc i) * c" by simp
  also have "\<dots> \<le> r * c" using a(1) by (intro mult_le_mono1) simp
  finally show ?thesis .
qed

lemma entry_mk [simp]: "i < r \<Longrightarrow> j < c \<Longrightarrow> entry (mk r c f) i j = f i j"
  using index_bound [of i r j c] by (simp add: mk_def entry_def)

lemma mk_cong: 
  assumes "\<And>i j. i < r \<Longrightarrow> j < c \<Longrightarrow> f i j = g i j"
  shows "mk r c f = mk r c g"
proof -
  have "f (k div c) (k mod c) = g (k div c) (k mod c)" if "k < r * c" for k
  proof -
    from that have "0 < c" by (cases c) simp_all
    then show ?thesis using that assms by (simp add: less_mult_imp_div_less)
  qed
  then show ?thesis by (simp add: mk_def)
qed

lemma is_matrix_rep: 
  assumes "is_matrix r c A" shows "A = mk r c (entry A)"
proof -
  have "data A = map (\<lambda>k. entry A (k div c) (k mod c)) [0..<r * c]"
    using assms by (intro nth_equalityI) (simp_all add: is_matrix_def entry_def)
  then show ?thesis using assms by (simp add: mk_def is_matrix_def)
qed

lemma is_matrix_eqI:
  assumes "is_matrix r c A" "is_matrix r c B"
    and "\<And>i j. i < r \<Longrightarrow> j < c \<Longrightarrow> entry A i j = entry B i j"
  shows "A = B"
proof -
  have "A = mk r c (entry A)" "B = mk r c (entry B)"
    using assms(1,2) by (simp_all add: is_matrix_rep [symmetric])
  moreover have "mk r c (entry A) = mk r c (entry B)"
    using assms(3) by (rule mk_cong)
  ultimately show ?thesis by simp
qed

lemma sum_list_upt: "(\<Sum>k\<leftarrow>[0..<n]. f k) = (\<Sum>k<n. (f k :: real))"
  by (simp add: interv_sum_list_conv_sum_set_nat atLeast0LessThan)

lemma is_matrix_matmul: "is_matrix r m A \<Longrightarrow> is_matrix m c B \<Longrightarrow> is_matrix r c (matmul A B)"
  by (simp add: matmul_def is_matrix_def)

lemma entry_matmul:
  "is_matrix r m A \<Longrightarrow> is_matrix m c B \<Longrightarrow> i < r \<Longrightarrow> j < c \<Longrightarrow>
   entry (matmul A B) i j = (\<Sum>k<m. entry A i k * entry B k j)"
  by (simp add: matmul_def is_matrix_def sum_list_upt)

lemma dot_is_matrix: "is_matrix r m A \<Longrightarrow> is_matrix m c B \<Longrightarrow> dot A B = Inr (matmul A B)"
  by (simp add: dot_def is_matrix_def)

lemma matmul_assoc:
  assumes "is_matrix r m A" "is_matrix m p B" "is_matrix p c C"
  shows "matmul (matmul A B) C = matmul A (matmul B C)"
proof (rule is_matrix_eqI [of r c])
  show "is_matrix r c (matmul (matmul A B) C)" 
    using assms by (blast intro: is_matrix_matmul)
  show "is_matrix r c (matmul A (matmul B C))"
    using assms by (blast intro: is_matrix_matmul)
  fix i j assume ij: "i < r" "j < c"
  have AB: "is_matrix r p (matmul A B)" using assms by (blast intro: is_matrix_matmul)
  have BC: "is_matrix m c (matmul B C)" using assms by (blast intro: is_matrix_matmul)
  have "entry (matmul (matmul A B) C) i j = (\<Sum>k<p. (\<Sum>l<m. entry A i l * entry B l k) * entry C k j)"
    using ij assms by (simp add: entry_matmul [OF AB assms(3)] entry_matmul [OF assms(1,2)])
  also have "\<dots> = (\<Sum>k<p. \<Sum>l<m. entry A i l * (entry B l k * entry C k j))"
    by (simp add: sum_distrib_right mult.assoc)
  also have "\<dots> = (\<Sum>l<m. \<Sum>k<p. entry A i l * (entry B l k * entry C k j))"
    by (rule sum.swap)
  also have "\<dots> = (\<Sum>l<m. entry A i l * (\<Sum>k<p. entry B l k * entry C k j))"
    by (simp add: sum_distrib_left)
  also have "\<dots> = entry (matmul A (matmul B C)) i j"
    using ij assms by (simp add: entry_matmul [OF assms(1) BC] entry_matmul [OF assms(2,3)])
  finally show "entry (matmul (matmul A B) C) i j = entry (matmul A (matmul B C)) i j" .
qed

lemma is_matrix_smul [simp]: "is_matrix r c A \<Longrightarrow> is_matrix r c (smul a A)"
  by (simp add: smul_def is_matrix_def)

lemma is_matrix_neg [simp]: "is_matrix r c A \<Longrightarrow> is_matrix r c (neg A)"
  by (simp add: neg_def is_matrix_def)

lemma is_matrix_abs [simp]: "is_matrix r c A \<Longrightarrow> is_matrix r c (abs_nd A)"
  by (simp add: abs_nd_def is_matrix_def)

lemma is_matrix_add [simp]: "is_matrix r c A \<Longrightarrow> is_matrix r c B \<Longrightarrow> is_matrix r c (add A B)"
  by (simp add: add_def is_matrix_def)

lemma entry_smul: "is_matrix r c A \<Longrightarrow> i < r \<Longrightarrow> j < c \<Longrightarrow> entry (smul a A) i j = a * entry A i j"
  using index_bound [of i r j c] by (simp add: smul_def is_matrix_def entry_def)

lemma entry_neg: "is_matrix r c A \<Longrightarrow> i < r \<Longrightarrow> j < c \<Longrightarrow> entry (neg A) i j = - entry A i j"
  using index_bound [of i r j c] by (simp add: neg_def is_matrix_def entry_def)

lemma entry_abs: "is_matrix r c A \<Longrightarrow> i < r \<Longrightarrow> j < c \<Longrightarrow> entry (abs_nd A) i j = \<bar>entry A i j\<bar>"
  using index_bound [of i r j c] by (simp add: abs_nd_def is_matrix_def entry_def)

lemma entry_add: 
  "is_matrix r c A \<Longrightarrow> is_matrix r c B \<Longrightarrow> i < r \<Longrightarrow> j < c \<Longrightarrow> 
   entry (add A B) i j = entry A i j + entry B i j"
  using index_bound [of i r j c] by (simp add: add_def is_matrix_def entry_def)

lemma is_matrix_eye [simp]: "is_matrix r c (eye r c)"
  by (simp add: eye_def)

lemma entry_eye: "i < r \<Longrightarrow> j < c \<Longrightarrow> entry (eye r c) i j = (if i = j then 1 else 0)"
  by (simp add: eye_def)

lemma matmul_eye_left:
  assumes "is_matrix r c A" shows "matmul (eye r r) A = A"
proof (rule is_matrix_eqI [of r c])
  show "is_matrix r c (matmul (eye r r) A)" using assms by (simp add: is_matrix_matmul [of r r])
  show "is_matrix r c A" by fact
  fix i j assume ij: "i < r" "j < c"
  have "entry (matmul (eye r r) A) i j = (\<Sum>k<r. (if i = k then 1 else 0) * entry A k j)"
    using ij assms by (simp add: entry_matmul [of r r _ c] entry_eye)
  also have "\<dots> = (\<Sum>k<r. if k = i then entry A k j else 0)"
    by (intro sum.cong) auto
  also have "\<dots> = entry A i j" using ij by simp
  finally show "entry (matmul (eye r r) A) i j = entry A i j" .
qed

lemma matmul_eye_right:
  assumes "is_matrix r c A" shows "matmul A (eye c c) = A"
proof (rule is_matrix_eqI [of r c])
  show "is_matrix r c (matmul A (eye c c))" using assms by (simp add: is_matrix_matmul [of r c])
  show "is_matrix r c A" by fact
  fix i j assume ij: "i < r" "j < c"
  have "entry (matmul A (eye c c)) i j = (\<Sum>k<c. entry A i k * (if k = j then 1 else 0))"
    using ij assms by (simp add: entry_matmul [of r c _ c] entry_eye)
  also have "\<dots> = (\<Sum>k<c. if k = j then entry A i k else 0)"
    by (intro sum.cong) auto
  also have "\<dots> = entry A i j" using ij by simp
  finally show "entry (matmul A (eye c c)) i j = entry A i j" .
qed

lemma matmul_smul_left:
  assumes "is_matrix r m A" "is_matrix m c B"
  shows "matmul (smul a A) B = smul a (matmul A B)"
proof (rule is_matrix_eqI [of r c])
  show "is_matrix r c (matmul (smul a A) B)" using assms by (simp add: is_matrix_matmul [of r m])
  show "is_matrix r c (smul a (matmul A B))" using assms by (simp add: is_matrix_matmul [of r m])
  fix i j assume ij: "i < r" "j < c"
  show "entry (matmul (smul a A) B) i j = entry (smul a (matmul A B)) i j"
    using ij assms 
    by (simp add: entry_matmul [of r m _ c] entry_smul [of r m] entry_smul [of r c] 
          is_matrix_matmul [of r m] sum_distrib_left mult.assoc)
qed

lemma matmul_smul_right:
  assumes "is_matrix r m A" "is_matrix m c B"
  shows "matmul A (smul a B) = smul a (matmul A B)"
proof (rule is_matrix_eqI [of r c])
  show "is_matrix r c (matmul A (smul a B))" using assms by (simp add: is_matrix_matmul [of r m])
  show "is_matrix r c (smul a (matmul A B))" using assms by (simp add: is_matrix_matmul [of r m])
  fix i j assume ij: "i < r" "j < c"
  show "entry (matmul A (smul a B)) i j = entry (smul a (matmul A B)) i j"
    using ij assms 
    by (simp add: entry_matmul [of r m _ c] entry_smul [of m c] entry_smul [of r c] 
          is_matrix_matmul [of r m] sum_distrib_left mult.left_commute)
qed

lemma smul_smul: "smul a (smul b A) = smul (a * b) A"
  by (simp add: smul_def o_def mult.assoc)

section \<open>Properties of the norm of a power\<close>

lemma is_matrix_transpose: "shape A = [r, c] \<Longrightarrow> is_matrix c r (transpose_nd A)"
  by (simp add: transpose_nd_def)

lemma is_matrix_ones [simp]: "is_matrix r c (ones r c)"
  by (simp add: ones_def)

lemma is_matrix_funpow_matmul:
  "is_matrix n n M \<Longrightarrow> is_matrix n c v \<Longrightarrow> is_matrix n c (((\<lambda>v. matmul M v) ^^ k) v)"
  by (induction k) (simp_all add: is_matrix_matmul)

lemma power_loop_is_matrix:
  "is_matrix n n M \<Longrightarrow> is_matrix n c v \<Longrightarrow>
   power_loop k M v = Inr (((\<lambda>v. matmul M v) ^^ k) v)"
proof (induction k arbitrary: v)
  case 0
  show ?case by simp
next
  case (Suc k)
  have "dot M v = Inr (matmul M v)"
    using Suc.prems by (rule dot_is_matrix)
  moreover have "is_matrix n c (matmul M v)"
    using Suc.prems by (rule is_matrix_matmul)
  ultimately show ?case
    using Suc.IH [of "matmul M v"] Suc.prems(1) by (simp add: funpow_swap1)
qed

lemma py_int_of_nat [simp]: "py_int (real k) = int k"
  by (simp add: py_int_def)

lemma py_int_of_int [simp]: "py_int (of_int k) = k"
  by (simp add: py_int_def)

lemma py_int_eq_iff: "of_int (py_int p) = p \<longleftrightarrow> p \<in> \<int>"
proof
  assume "of_int (py_int p) = p"
  then show "p \<in> \<int>" by (metis Ints_of_int)
next
  assume "p \<in> \<int>"
  then obtain k where "p = of_int k" by (auto elim: Ints_cases)
  then show "of_int (py_int p) = p" by simp
qed

lemma onenorm_matrix_power_nnm_shape:
  assumes "shape A = [n, n]"
  shows "onenorm_matrix_power_nnm A (PyInt (int k)) =
           amax (((\<lambda>v. matmul (transpose_nd A) v) ^^ k) (ones n 1))"
    and "onenorm_matrix_power_nnm A (PyFloat (real k)) =
           amax (((\<lambda>v. matmul (transpose_nd A) v) ^^ k) (ones n 1))"
proof -
  have "is_matrix n n (transpose_nd A)" using assms by (rule is_matrix_transpose)
  then have "power_loop k (transpose_nd A) (ones n 1) =
      Inr (((\<lambda>v. matmul (transpose_nd A) v) ^^ k) (ones n 1))"
    using is_matrix_ones by (rule power_loop_is_matrix)
  then show "onenorm_matrix_power_nnm A (PyInt (int k)) =
           amax (((\<lambda>v. matmul (transpose_nd A) v) ^^ k) (ones n 1))"
    and "onenorm_matrix_power_nnm A (PyFloat (real k)) =
           amax (((\<lambda>v. matmul (transpose_nd A) v) ^^ k) (ones n 1))"
    using assms
    by (simp_all add: onenorm_matrix_power_nnm_def int_of_number_def int_differs_def
          negative_def)
qed

lemma amax_is_matrix:
  "is_matrix r c v \<Longrightarrow> amax v = (if r * c = 0 then Inl ValueError else Inr (Max (set (data v))))"
  using length_0_conv [of "data v"]
  by (auto simp add: amax_def is_matrix_def simp del: length_0_conv)

lemma square_shape_iff: "square_shape A \<longleftrightarrow> (\<exists>n>0. shape A = [n, n])"
proof
  assume a: "square_shape A"
  then obtain x y where "shape A = [x, y]"
    unfolding square_shape_def by (metis (no_types) Suc_length_conv length_0_conv One_nat_def Suc_1 numeral_2_eq_2)
  then show "\<exists>n>0. shape A = [n, n]" using a by (auto simp: square_shape_def)
next
  assume "\<exists>n>0. shape A = [n, n]" then show "square_shape A" by (auto simp: square_shape_def)
qed

lemma square_imp_shape: "square n A \<Longrightarrow> square_shape A"
  by (auto simp: square_shape_iff square_def is_matrix_def)

lemma shape_two: "length (shape A) = 2 \<Longrightarrow> shape A = [shape A ! 0, shape A ! 1]"
  by (cases "shape A"; cases "tl (shape A)"; cases "tl (tl (shape A))") auto

lemma nonneg_integer_cases:
  "nonneg_integer p \<longleftrightarrow> (\<exists>k. p = PyInt (int k) \<or> p = PyFloat (real k))"
proof
  assume a: "nonneg_integer p"
  show "\<exists>k. p = PyInt (int k) \<or> p = PyFloat (real k)"
  proof (cases p)
    case (PyInt j)
    then have "p = PyInt (int (nat j))" using a by (simp add: nonneg_integer_def)
    then show ?thesis by blast
  next
    case (PyFloat x)
    then have "of_int \<lfloor>x\<rfloor> = x" "0 \<le> x" 
      using a by (simp_all add: nonneg_integer_def del: of_int_floor_cancel)
    then have "x = real (nat \<lfloor>x\<rfloor>)" by (simp del: of_int_floor_cancel)
    then show ?thesis using PyFloat by blast
  qed (use a in \<open>simp_all add: nonneg_integer_def\<close>)
next
  assume "\<exists>k. p = PyInt (int k) \<or> p = PyFloat (real k)"
  then show "nonneg_integer p" by (auto simp: nonneg_integer_def)
qed

lemma onenorm_matrix_power_nnm_not_integer:
  assumes "\<not> nonneg_integer p" "p \<noteq> PyInf" "p \<noteq> PyNegInf"
  shows "onenorm_matrix_power_nnm A p = Inl ValueError"
proof (cases p)
  case (PyInt j)
  then show ?thesis using assms(1)
    by (simp add: onenorm_matrix_power_nnm_def int_of_number_def negative_def
          nonneg_integer_def)
next
  case (PyFloat x)
  have "of_int (py_int x) \<noteq> x \<or> x < 0"
  proof (rule ccontr)
    assume "\<not> (of_int (py_int x) \<noteq> x \<or> x < 0)"
    then have "x \<in> \<int>" "0 \<le> x" by (simp_all add: py_int_eq_iff [symmetric])
    then have "of_int \<lfloor>x\<rfloor> = x" by (auto elim: Ints_cases)
    then show False using assms(1) PyFloat \<open>0 \<le> x\<close> by (simp add: nonneg_integer_def)
  qed
  then show ?thesis using PyFloat
    by (auto simp: onenorm_matrix_power_nnm_def int_of_number_def negative_def
          int_differs_def)
next
  case PyNaN
  then show ?thesis by (simp add: onenorm_matrix_power_nnm_def int_of_number_def)
qed (use assms in simp_all)

lemma onenorm_matrix_power_nnm_integer:
  assumes "nonneg_integer p"
  shows "(\<exists>e. onenorm_matrix_power_nnm A p = Inl e) \<longleftrightarrow> \<not> square_shape A"
    and "onenorm_matrix_power_nnm A p = Inl e \<Longrightarrow> e = ValueError"
proof -
  from assms obtain k where k: "p = PyInt (int k) \<or> p = PyFloat (real k)"
    by (auto simp: nonneg_integer_cases)
  show "(\<exists>e. onenorm_matrix_power_nnm A p = Inl e) \<longleftrightarrow> \<not> square_shape A"
  proof (cases "length (shape A) = 2 \<and> shape A ! 0 = shape A ! 1")
    case False
    then show ?thesis using k
      by (auto simp: onenorm_matrix_power_nnm_def square_shape_def int_of_number_def
            int_differs_def negative_def)
  next
    case sq: True
    define n where "n = shape A ! 0"
    have sh: "shape A = [n, n]" using sq shape_two [of A] by (simp add: n_def)
    have "is_matrix n n (transpose_nd A)" using sh by (rule is_matrix_transpose)
    then have "is_matrix n 1 (((\<lambda>v. matmul (transpose_nd A) v) ^^ k) (ones n 1))"
      using is_matrix_ones by (rule is_matrix_funpow_matmul)
    then show ?thesis using sh k
      by (auto simp add: onenorm_matrix_power_nnm_shape amax_is_matrix square_shape_iff
            split: if_splits)
  qed
  show "e = ValueError" if a: "onenorm_matrix_power_nnm A p = Inl e"
  proof (cases "length (shape A) = 2 \<and> shape A ! 0 = shape A ! 1")
    case False
    then show ?thesis using k a
      by (auto simp: onenorm_matrix_power_nnm_def int_of_number_def
            int_differs_def negative_def split: if_splits)
  next
    case sq: True
    define n where "n = shape A ! 0"
    have sh: "shape A = [n, n]" using sq shape_two [of A] by (simp add: n_def)
    show ?thesis using a k
      by (auto simp: onenorm_matrix_power_nnm_shape [OF sh] amax_def split: if_splits)
  qed
qed

lemma onenorm_matrix_power_nnm_spec:
  assumes "square_shape A"
  shows "onenorm_matrix_power_nnm A (PyInt (int p)) = Inr (spec_onenorm_power A p)"
    and "onenorm_matrix_power_nnm A (PyFloat (real p)) = Inr (spec_onenorm_power A p)"
proof -
  from assms obtain n where n: "0 < n" "shape A = [n, n]" by (auto simp: square_shape_iff)
  have "is_matrix n n (transpose_nd A)" using n(2) by (rule is_matrix_transpose)
  then have "is_matrix n 1 (((\<lambda>v. matmul (transpose_nd A) v) ^^ p) (ones n 1))"
    using is_matrix_ones by (rule is_matrix_funpow_matmul)
  then show "onenorm_matrix_power_nnm A (PyInt (int p)) = Inr (spec_onenorm_power A p)"
    and "onenorm_matrix_power_nnm A (PyFloat (real p)) = Inr (spec_onenorm_power A p)"
    using n 
    by (simp_all add: onenorm_matrix_power_nnm_shape amax_is_matrix spec_onenorm_power_def)
qed

text \<open>
  Claim C5. For every square matrix \<open>A\<close> and every non-negative integer \<open>p\<close>, given as
  a Python integer or as a float, the function \<open>_onenorm_matrix_power_nnm\<close> returns what
  the algorithm of the specification gives: start with the column of ones, multiply it
  \<open>p\<close> times by the transpose of \<open>A\<close>, and take the largest entry. In particular it does
  not raise.
\<close>

theorem onenorm_matrix_power_nnm_algorithm:
  assumes "square_shape A"
  shows "onenorm_matrix_power_nnm A (PyInt (int p)) = Inr (spec_onenorm_power A p) \<and>
         onenorm_matrix_power_nnm A (PyFloat (real p)) = Inr (spec_onenorm_power A p)"
  using assms by (simp add: onenorm_matrix_power_nnm_spec)

theorem onenorm_matrix_power_nnm_algorithm_witness:
  "square_shape (eye 2 2) \<and>
   onenorm_matrix_power_nnm (eye 2 2) (PyInt (int 3)) = Inr (spec_onenorm_power (eye 2 2) 3) \<and>
   onenorm_matrix_power_nnm (eye 2 2) (PyFloat (real 3)) = Inr (spec_onenorm_power (eye 2 2) 3)"
  using onenorm_matrix_power_nnm_algorithm [of "eye 2 2" 3]
  by (simp add: square_shape_def eye_def)

text \<open>
  Claim C6, as it is written, fails on the program in two places. For an infinite \<open>p\<close>,
  which is not a non-negative integer, the conversion \<open>int(p)\<close> of the test raises
  \<open>OverflowError\<close> before the function can raise its \<open>ValueError\<close>, the InvalidArgument
  of the specification. And the array of shape \<open>(0, 0)\<close>, two-dimensional and square for
  the test of the function, raises \<open>ValueError\<close> with the non-negative integer \<open>p = 0\<close>,
  in the final reduction over an empty array.
\<close>

theorem onenorm_matrix_power_nnm_counterexample:
  "\<not> nonneg_integer PyInf \<and>
   onenorm_matrix_power_nnm (ones 2 2) PyInf = Inl OverflowError \<and>
   onenorm_matrix_power_nnm (ones 2 2) PyInf \<noteq> Inl ValueError \<and>
   nonneg_integer (PyInt 0) \<and>
   length (shape (zeros 0 0)) = 2 \<and> shape (zeros 0 0) ! 0 = shape (zeros 0 0) ! 1 \<and>
   onenorm_matrix_power_nnm (zeros 0 0) (PyInt 0) = Inl ValueError"
  by (simp add: onenorm_matrix_power_nnm_def int_of_number_def nonneg_integer_def
        int_differs_def negative_def zeros_def ones_def mk_def amax_def)

text \<open>
  Claim C6, amended. For every Python number \<open>p\<close> other than the two infinities,
  \<open>_onenorm_matrix_power_nnm\<close> raises exactly when \<open>p\<close> is not a non-negative integer or
  \<open>A\<close> is not a square matrix with at least one row (two-dimensional, with as many rows
  as columns); the exception is then always \<open>ValueError\<close>. In particular it raises
  \<open>ValueError\<close> for \<open>p = -1\<close>, for \<open>p = 2.5\<close> and for an array with \<open>r\<close> rows and
  \<open>c \<noteq> r\<close> columns.
\<close>

theorem onenorm_matrix_power_nnm_invalid_argument:
  assumes "p \<noteq> PyInf" "p \<noteq> PyNegInf"
  shows "((\<exists>e. onenorm_matrix_power_nnm A p = Inl e) \<longleftrightarrow>
            \<not> nonneg_integer p \<or> \<not> square_shape A) \<and>
         (\<forall>e. onenorm_matrix_power_nnm A p = Inl e \<longrightarrow> e = ValueError) \<and>
         onenorm_matrix_power_nnm A (PyInt (- 1)) = Inl ValueError \<and>
         onenorm_matrix_power_nnm A (PyFloat 2.5) = Inl ValueError \<and>
         (\<forall>r c. shape A = [r, c] \<and> r \<noteq> c \<longrightarrow>
                onenorm_matrix_power_nnm A p = Inl ValueError)"
proof -
  have 1: "onenorm_matrix_power_nnm A (PyInt (- 1)) = Inl ValueError"
    by (rule onenorm_matrix_power_nnm_not_integer) (simp_all add: nonneg_integer_def)
  have "\<lfloor>2.5::real\<rfloor> = 2" by linarith
  then have 2: "onenorm_matrix_power_nnm A (PyFloat 2.5) = Inl ValueError"
    by (intro onenorm_matrix_power_nnm_not_integer) (simp_all add: nonneg_integer_def)
  have 3: "(\<exists>e. onenorm_matrix_power_nnm A p = Inl e) \<longleftrightarrow>
            \<not> nonneg_integer p \<or> \<not> square_shape A"
    using onenorm_matrix_power_nnm_not_integer [OF _ assms, of A]
      onenorm_matrix_power_nnm_integer(1) [of p A] by (cases "nonneg_integer p") auto
  have 4: "e = ValueError" if "onenorm_matrix_power_nnm A p = Inl e" for e
    using that onenorm_matrix_power_nnm_not_integer [OF _ assms, of A]
      onenorm_matrix_power_nnm_integer(2) [of p A e] by (cases "nonneg_integer p") auto
  have 5: "onenorm_matrix_power_nnm A p = Inl ValueError" if "shape A = [r, c]" "r \<noteq> c" for r c
  proof -
    have "\<not> square_shape A" using that by (simp add: square_shape_def)
    then obtain e where "onenorm_matrix_power_nnm A p = Inl e" using 3 by blast
    then show ?thesis using 4 by blast
  qed
  show ?thesis using 1 2 3 4 5 by blast
qed

theorem onenorm_matrix_power_nnm_invalid_argument_witness:
  "PyInt 2 \<noteq> PyInf \<and> PyInt 2 \<noteq> PyNegInf \<and>
   \<not> square_shape (ones 2 3) \<and> shape (ones 2 3) = [2, 3] \<and> (2::nat) \<noteq> 3 \<and>
   onenorm_matrix_power_nnm (ones 2 3) (PyInt 2) = Inl ValueError \<and>
   (\<exists>e. onenorm_matrix_power_nnm (ones 2 3) (PyInt 2) = Inl e)"
  using onenorm_matrix_power_nnm_invalid_argument [of "PyInt 2" "ones 2 3"]
  by (simp add: square_shape_def ones_def)

section \<open>Properties of the one-norm and of the truncation bound\<close>

lemma onenorm_square: "square n A \<Longrightarrow> onenorm A = Inr (max_abs_col_sum A)"
  by (simp add: onenorm_def linalg_norm_1_def max_abs_col_sum_def square_def is_matrix_def)

lemma max_abs_col_sum_eq:
  "is_matrix r c A \<Longrightarrow> max_abs_col_sum A = Max ((\<lambda>j. \<Sum>i<r. \<bar>entry A i j\<bar>) ` {..<c})"
  by (simp add: max_abs_col_sum_def is_matrix_def sum_list_upt atLeast0LessThan)

lemma max_abs_col_sum_nonneg:
  assumes "square n A" shows "0 \<le> max_abs_col_sum A"
proof -
  have n: "0 < n" and m: "is_matrix n n A" using assms by (simp_all add: square_def)
  have "(\<Sum>i<n. \<bar>entry A i 0\<bar>) \<le> max_abs_col_sum A"
    unfolding max_abs_col_sum_eq [OF m] using n by (intro Max_ge) auto
  moreover have "0 \<le> (\<Sum>i<n. \<bar>entry A i 0\<bar>)" by (intro sum_nonneg) simp
  ultimately show ?thesis by linarith
qed

lemma max_abs_col_sum_zero:
  assumes "square n A" "max_abs_col_sum A = 0"
  shows "A = zeros n n"
proof -
  have n: "0 < n" and m: "is_matrix n n A" using assms by (simp_all add: square_def)
  show ?thesis
  proof (rule is_matrix_eqI [OF m])
    show "is_matrix n n (zeros n n)" by (simp add: zeros_def)
    fix i j assume ij: "i < n" "j < n"
    have "(\<Sum>i<n. \<bar>entry A i j\<bar>) \<le> max_abs_col_sum A"
      unfolding max_abs_col_sum_eq [OF m] using ij by (intro Max_ge) auto
    then have "(\<Sum>i<n. \<bar>entry A i j\<bar>) \<le> 0" using assms(2) by simp
    moreover have "0 \<le> (\<Sum>i<n. \<bar>entry A i j\<bar>)" by (intro sum_nonneg) simp
    ultimately have "(\<Sum>i<n. \<bar>entry A i j\<bar>) = 0" by linarith
    then have "\<bar>entry A i j\<bar> = 0"
      using ij by (subst (asm) sum_nonneg_eq_0_iff) auto
    then show "entry A i j = entry (zeros n n) i j" using ij by (simp add: zeros_def)
  qed
qed

lemma data_zeros: "data (zeros r c) = replicate (r * c) 0"
  by (simp add: zeros_def mk_def map_replicate_const)

lemma is_matrix_zeros [simp]: "is_matrix r c (zeros r c)"
  by (simp add: zeros_def)

lemma entry_zeros [simp]: "i < r \<Longrightarrow> j < c \<Longrightarrow> entry (zeros r c) i j = 0"
  by (simp add: zeros_def)

lemma abs_zeros [simp]: "abs_nd (zeros r c) = zeros r c"
  by (rule is_matrix_eqI [of r c]) (simp_all add: entry_abs [of r c])

lemma neg_zeros [simp]: "neg (zeros r c) = zeros r c"
  by (rule is_matrix_eqI [of r c]) (simp_all add: entry_neg [of r c])

lemma smul_zeros [simp]: "smul a (zeros r c) = zeros r c"
  by (rule is_matrix_eqI [of r c]) (simp_all add: entry_smul [of r c])

lemma transpose_zeros [simp]: "transpose_nd (zeros r c) = zeros c r"
  by (rule is_matrix_eqI [of c r]) (simp_all add: is_matrix_transpose transpose_nd_def zeros_def)

lemma matmul_zeros_left [simp]: "is_matrix m c B \<Longrightarrow> matmul (zeros r m) B = zeros r c"
  by (rule is_matrix_eqI [of r c]) (simp_all add: is_matrix_matmul [of r m] entry_matmul [of r m _ c])

lemma matmul_zeros_right [simp]: "is_matrix r m A \<Longrightarrow> matmul A (zeros m c) = zeros r c"
  by (rule is_matrix_eqI [of r c]) (simp_all add: is_matrix_matmul [of r m] entry_matmul [of r m _ c])

lemma add_zeros_left [simp]: "is_matrix r c B \<Longrightarrow> add (zeros r c) B = B"
  by (rule is_matrix_eqI [of r c]) (simp_all add: entry_add [of r c])

lemma add_zeros_right [simp]: "is_matrix r c B \<Longrightarrow> add B (zeros r c) = B"
  by (rule is_matrix_eqI [of r c]) (simp_all add: entry_add [of r c])

lemma funpow_matmul_zeros:
  "is_matrix n c v \<Longrightarrow> 0 < k \<Longrightarrow> ((\<lambda>v. matmul (zeros n n) v) ^^ k) v = zeros n c"
proof (induction k)
  case 0 then show ?case by simp
next
  case (Suc k)
  have "is_matrix n c (((\<lambda>v. matmul (zeros n n) v) ^^ k) v)"
    using is_matrix_zeros Suc.prems(1) by (rule is_matrix_funpow_matmul)
  then show ?case by simp
qed

lemma shape_zeros [simp]: "shape (zeros r c) = [r, c]"
  by (simp add: zeros_def)

lemma spec_onenorm_power_zeros:
  "0 < n \<Longrightarrow> 0 < k \<Longrightarrow> spec_onenorm_power (zeros n n) k = 0"
  using funpow_matmul_zeros [of n 1 "ones n 1" k]
  by (simp add: spec_onenorm_power_def data_zeros)

lemma max_abs_col_sum_zeros: "0 < n \<Longrightarrow> max_abs_col_sum (zeros n n) = 0"
proof -
  assume n: "0 < n"
  have "(\<lambda>j. \<Sum>i<n. \<bar>entry (zeros n n) i j\<bar>) ` {..<n} = {0}"
    using n by (auto simp: image_iff)
  then show ?thesis by (simp add: max_abs_col_sum_eq [of n n])
qed

text \<open>The norm of a power of a matrix without negative entries is not negative.\<close>

lemma set_data_mk: "set (data (mk r c f)) = {f i j | i j. i < r \<and> j < c}"
proof -
  have "\<exists>i j. f (k div c) (k mod c) = f i j \<and> i < r \<and> j < c" if "k < r * c" for k
  proof -
    from that have "0 < c" by (cases c) simp_all
    then show ?thesis using that by (intro exI [of _ "k div c"] exI [of _ "k mod c"]) (simp add: less_mult_imp_div_less)
  qed
  moreover have "\<exists>k<r * c. f i j = f (k div c) (k mod c)" if "i < r" "j < c" for i j
    using that index_bound [of i r j c] by (intro exI [of _ "i * c + j"]) simp
  ultimately show ?thesis by (auto simp: mk_def image_iff Bex_def)
qed

lemma set_data_is_matrix: 
  "is_matrix r c A \<Longrightarrow> set (data A) = {entry A i j | i j. i < r \<and> j < c}"
  using set_data_mk [of r c "entry A"] is_matrix_rep [of r c A] by simp

lemma nonneg_matmul:
  assumes "is_matrix r m A" "is_matrix m c B" 
     "\<forall>x\<in>set (data A). 0 \<le> x" "\<forall>x\<in>set (data B). 0 \<le> x"
  shows "\<forall>x\<in>set (data (matmul A B)). 0 \<le> x"
proof -
  have A: "0 \<le> entry A i k" if "i < r" "k < m" for i k
    using assms(3) that unfolding set_data_is_matrix [OF assms(1)] by blast
  have B: "0 \<le> entry B k j" if "k < m" "j < c" for k j
    using assms(4) that unfolding set_data_is_matrix [OF assms(2)] by blast
  have "0 \<le> entry (matmul A B) i j" if "i < r" "j < c" for i j
    unfolding entry_matmul [OF assms(1,2) that] using A B that by (intro sum_nonneg) simp
  then show ?thesis
    unfolding set_data_is_matrix [OF is_matrix_matmul [OF assms(1,2)]] by blast
qed

lemma nonneg_funpow:
  assumes "is_matrix n n M" "\<forall>x\<in>set (data M). 0 \<le> x"
    and "is_matrix n c v" "\<forall>x\<in>set (data v). 0 \<le> x"
  shows "\<forall>x\<in>set (data (((\<lambda>v. matmul M v) ^^ k) v)). 0 \<le> x"
proof (induction k)
  case 0
  show ?case using assms(4) by simp
next
  case (Suc k)
  have "is_matrix n c (((\<lambda>v. matmul M v) ^^ k) v)"
    using assms(1,3) by (rule is_matrix_funpow_matmul)
  then have "\<forall>x\<in>set (data (matmul M (((\<lambda>v. matmul M v) ^^ k) v))). 0 \<le> x"
    using assms(1,2) Suc.IH by (intro nonneg_matmul [of n n _ c]) 
  then show ?case by simp
qed

lemma spec_onenorm_power_abs_nonneg:
  assumes "square n A" shows "0 \<le> spec_onenorm_power (abs_nd A) k"
proof -
  have n: "0 < n" and m: "is_matrix n n A" using assms by (simp_all add: square_def)
  let ?M = "transpose_nd (abs_nd A)"
  let ?v = "((\<lambda>v. matmul ?M v) ^^ k) (ones n 1)"
  have sh: "shape (abs_nd A) = [n, n]" using m by (simp add: abs_nd_def is_matrix_def)
  have M: "is_matrix n n ?M" using sh by (rule is_matrix_transpose)
  have "\<forall>x\<in>set (data ?M). 0 \<le> x"
    using sh by (auto simp: transpose_nd_def set_data_mk entry_abs [OF m])
  moreover have "\<forall>x\<in>set (data (ones n 1)). 0 \<le> x" by (auto simp: ones_def set_data_mk)
  ultimately have nn: "\<forall>x\<in>set (data ?v). 0 \<le> x"
    using M is_matrix_ones by (intro nonneg_funpow [of n _ 1]) 
  have "is_matrix n 1 ?v" using M is_matrix_ones by (rule is_matrix_funpow_matmul)
  then have "data ?v \<noteq> []" using n by (auto simp: is_matrix_def)
  then have "Max (set (data ?v)) \<in> set (data ?v)" by (intro Max_in) simp_all
  then show ?thesis using nn sh by (simp add: spec_onenorm_power_def)
qed

lemma square_abs: "square n A \<Longrightarrow> square n (abs_nd A)"
  by (simp add: square_def)

lemma onenorm_matrix_power_nnm_square:
  "square n A \<Longrightarrow> onenorm_matrix_power_nnm A (PyInt (int k)) = Inr (spec_onenorm_power A k)"
  by (intro onenorm_matrix_power_nnm_spec square_imp_shape)

lemma spec_onenorm_power_max_zero:
  assumes "square n A" "max_abs_col_sum A = 0" "0 < k"
  shows "spec_onenorm_power (abs_nd A) k = 0"
proof -
  have "A = zeros n n" using assms(1,2) by (rule max_abs_col_sum_zero)
  moreover have "0 < n" using assms(1) by (simp add: square_def)
  ultimately show ?thesis using assms(3) by (simp add: spec_onenorm_power_zeros)
qed

lemma ell_coeff_pos: "0 \<le> m \<Longrightarrow> 0 < ell_coeff m"
  by (simp add: ell_coeff_def)

text \<open>The coefficient and the range of doubles.\<close>

lemma coeff_bound_74: "(2::real) ^ 148 * fact 149 < double_overflow"
  unfolding double_overflow_def by (simp add: fact_numeral)



lemma py_float_small: "\<bar>real_of_int k\<bar> < double_overflow \<Longrightarrow> py_float k = Inr (of_int k)"
  by (simp add: py_float_def)

lemma choose_le_pow2: "real (n choose k) \<le> 2 ^ n"
proof -
  have "n choose k \<le> 2 ^ n" by (rule binomial_le_pow2)
  then have "real (n choose k) \<le> real (2 ^ n)" by (rule of_nat_mono)
  then show ?thesis by simp
qed

lemma coeff_parts:
  assumes "0 \<le> m" "m \<le> b" 
  shows "real (nat (2 * m) choose nat m) \<le> 2 ^ nat (2 * b)"
    and "(fact (nat (2 * m + 1)) :: real) \<le> fact (nat (2 * b + 1))"
    and "1 \<le> real (nat (2 * m) choose nat m)" 
    and "(1::real) \<le> fact (nat (2 * m + 1))"
proof -
  have "real (nat (2 * m) choose nat m) \<le> 2 ^ nat (2 * m)" by (rule choose_le_pow2)
  also have "\<dots> \<le> 2 ^ nat (2 * b)" using assms by (intro power_increasing) simp_all
  finally show "real (nat (2 * m) choose nat m) \<le> 2 ^ nat (2 * b)" .
  show "(fact (nat (2 * m + 1)) :: real) \<le> fact (nat (2 * b + 1))"
    using assms by (intro fact_mono) simp
  have "0 < nat (2 * m) choose nat m" by (rule zero_less_binomial) (use assms in simp)
  then show "1 \<le> real (nat (2 * m) choose nat m)" by linarith
  show "(1::real) \<le> fact (nat (2 * m + 1))" by (rule fact_ge_1)
qed

lemma coeff_in_range:
  assumes "0 \<le> m" "m \<le> 74"
  shows "py_float (int (nat (2 * m) choose nat m)) = Inr (real (nat (2 * m) choose nat m))"
    and "py_float (int (fact (nat (2 * m + 1)))) = Inr (fact (nat (2 * m + 1)))"
    and "float_mult (real (nat (2 * m) choose nat m)) (fact (nat (2 * m + 1))) =
         Some (ell_coeff m)"
proof -
  let ?c = "real (nat (2 * m) choose nat m)" and ?f = "fact (nat (2 * m + 1)) :: real"
  note b = coeff_parts [OF assms]
  have "?c * ?f \<le> 2 ^ 148 * fact 149"
    using b by (intro mult_mono) simp_all
  then have p: "?c * ?f < double_overflow" using coeff_bound_74 by linarith
  have "?c * 1 \<le> ?c * ?f" using b by (intro mult_left_mono) simp_all
  then have c: "?c < double_overflow" using p by linarith
  have "1 * ?f \<le> ?c * ?f" using b by (intro mult_right_mono) simp_all
  then have f: "?f < double_overflow" using p by linarith
  show "py_float (int (nat (2 * m) choose nat m)) = Inr ?c"
    using c by (simp add: py_float_def)
  show "py_float (int (fact (nat (2 * m + 1)))) = Inr ?f"
    using f by (simp add: py_float_def)
  show "float_mult ?c ?f = Some (ell_coeff m)"
    using p b by (simp add: float_mult_def ell_coeff_def abs_mult)
qed

lemma fact_169: "(fact 169 :: real) < double_overflow"
  unfolding double_overflow_def by (simp add: fact_numeral)

lemma pow_170: "(2::real) ^ 170 < double_overflow"
  unfolding double_overflow_def by simp

lemma coeff_converts:
  assumes "0 \<le> m" "m \<le> 84"
  shows "py_float (int (nat (2 * m) choose nat m)) = Inr (real (nat (2 * m) choose nat m))"
    and "py_float (int (fact (nat (2 * m + 1)))) = Inr (fact (nat (2 * m + 1)))"
proof -
  note b = coeff_parts [OF assms]
  have "real (nat (2 * m) choose nat m) \<le> 2 ^ 168" using b(1) by simp
  also have "\<dots> < (2::real) ^ 170" by simp
  finally have "real (nat (2 * m) choose nat m) < double_overflow" using pow_170 by linarith
  then show "py_float (int (nat (2 * m) choose nat m)) = Inr (real (nat (2 * m) choose nat m))"
    by (simp add: py_float_def)
  have "(fact (nat (2 * m + 1)) :: real) < double_overflow" using b(2) fact_169 by simp
  then show "py_float (int (fact (nat (2 * m + 1)))) = Inr (fact (nat (2 * m + 1)))"
    by (simp add: py_float_def)
qed

lemma ell_zero_power_norm:
  assumes "square n A" "0 < m" "m \<le> 84" 
    and "spec_onenorm_power (abs_nd A) (nat (2 * m + 1)) = 0"
  shows "ell A m = Inr 0"
proof -
  have k: "2 * m + 1 = int (nat (2 * m + 1))" using assms(2) by simp
  have nap: "onenorm_matrix_power_nnm (abs_nd A) (PyInt (2 * m + 1)) = Inr 0"
    using onenorm_matrix_power_nnm_square [OF square_abs [OF assms(1)], of "nat (2 * m + 1)"]
    unfolding k [symmetric] assms(4) .
  have m: "\<not> m < 0" using assms(2) by simp
  have m0: "0 \<le> m" using assms(2) by simp
  note c = coeff_converts [OF m0 assms(3)]
  show ?thesis
    unfolding ell_def Let_def
    by (simp only: m c nap if_True if_False sum.case simp_thms)
qed

lemma ell_square:
  assumes "square n A" "0 < m" "m \<le> 74"
  shows "ell A m = Inr (spec_ell A m)"
proof -
  define nap where "nap = spec_onenorm_power (abs_nd A) (nat (2 * m + 1))"
  define nA where "nA = max_abs_col_sum A"
  have k: "2 * m + 1 = int (nat (2 * m + 1))" "0 < nat (2 * m + 1)"
    using assms(2) by simp_all
  have nap: "onenorm_matrix_power_nnm (abs_nd A) (PyInt (2 * m + 1)) = Inr nap"
    using onenorm_matrix_power_nnm_square [OF square_abs [OF assms(1)], of "nat (2 * m + 1)"]
    unfolding k(1) [symmetric] nap_def .
  have nA: "onenorm A = Inr nA" unfolding nA_def using assms(1) by (rule onenorm_square)
  have c: "0 < ell_coeff m" using assms(2) by (simp add: ell_coeff_pos)
  have m: "\<not> m < 0" "m \<noteq> 0" using assms(2) by simp_all
  have m0: "0 \<le> m" using assms(2) by simp
  note cv = coeff_in_range [OF m0 assms(3)]
  show ?thesis
  proof (cases "nap = 0")
    case True
    then have "ell A m = Inr 0" 
      using assms by (intro ell_zero_power_norm) (simp_all add: nap_def)
    then show ?thesis using True by (simp add: spec_ell_def Let_def nap_def)
  next
    case False
    have "0 \<le> nap" unfolding nap_def using assms(1) by (rule spec_onenorm_power_abs_nonneg)
    then have nap_pos: "0 < nap" using False by simp
    have "nA \<noteq> 0"
      using spec_onenorm_power_max_zero [OF assms(1) _ k(2)] False by (auto simp: nap_def nA_def)
    then have n_pos: "0 < nA"
      using max_abs_col_sum_nonneg [OF assms(1)] by (simp add: nA_def)
    have d: "0 < nA * ell_coeff m" using n_pos c by simp
    have d0: "\<not> nA * ell_coeff m = 0" using n_pos c by simp
    have "(0::real) < 2 powi (- 53)" by simp
    then have "0 < nap / (nA * ell_coeff m) / 2 powi (- 53)"
      using nap_pos d by (intro divide_pos_pos)
    then have q: "\<not> nap / (nA * ell_coeff m) / 2 powi (- 53) < 0" 
      "\<not> nap / (nA * ell_coeff m) / 2 powi (- 53) = 0"
      by linarith+
    show ?thesis 
      unfolding ell_def spec_ell_def Let_def nap_def [symmetric] nA_def [symmetric]
      by (simp only: m cv nap nA False d0 q if_True if_False sum.case option.case simp_thms)
  qed
qed


lemma spec_onenorm_power_eye1: "spec_onenorm_power (abs_nd (eye 1 1)) k = 1"
proof -
  have e: "transpose_nd (abs_nd (eye (Suc 0) (Suc 0))) = ones (Suc 0) (Suc 0)"
    by (simp add: transpose_nd_def abs_nd_def eye_def ones_def mk_def entry_def)
  have m: "matmul (ones (Suc 0) (Suc 0)) (ones (Suc 0) (Suc 0)) = ones (Suc 0) (Suc 0)"
    by (simp add: matmul_def ones_def mk_def entry_def)
  have f: "((\<lambda>v. matmul (ones (Suc 0) (Suc 0)) v) ^^ k) (ones (Suc 0) (Suc 0)) = 
        ones (Suc 0) (Suc 0)"
    by (induction k) (simp_all add: m)
  have s: "shape (abs_nd (eye (Suc 0) (Suc 0))) ! 0 = Suc 0"
    by (simp add: abs_nd_def eye_def)
  have "spec_onenorm_power (abs_nd (eye (Suc 0) (Suc 0))) k =
      Max (set (data (((\<lambda>v. matmul (ones (Suc 0) (Suc 0)) v) ^^ k) (ones (Suc 0) (Suc 0)))))"
    by (simp add: spec_onenorm_power_def e s)
  also have "\<dots> = 1" unfolding f by (simp add: ones_def mk_def)
  finally show ?thesis by simp
qed

lemma onenorm_eye1: "onenorm (eye 1 1) = Inr 1"
  by (simp add: onenorm_def linalg_norm_1_def eye_def mk_def entry_def)









text \<open>
  Claim C10. In \<open>_ell(A, m)\<close> the division by \<open>onenorm(A) * c\<close> is guarded. For a
  square matrix \<open>A\<close> and \<open>m > 0\<close>: when the one-norm of \<open>A\<close> is zero, the norm of the
  power \<open>2m + 1\<close> of \<open>abs(A)\<close> is zero, and \<open>_ell\<close> returns \<open>0\<close> at the test before the
  division as long as the two conversions of the coefficient return (\<open>m \<le> 84\<close>);
  and whenever the norm of the power is not zero, which is when the division is
  reached, \<open>onenorm(A)\<close> is positive and so is the divisor \<open>onenorm(A) * c\<close>.
\<close>

theorem ell_division_guarded:
  assumes "square n A" "0 < m"
  shows "(onenorm A = Inr 0 \<longrightarrow>
            onenorm_matrix_power_nnm (abs_nd A) (PyInt (2 * m + 1)) = Inr 0) \<and>
         (onenorm A = Inr 0 \<and> m \<le> 84 \<longrightarrow> ell A m = Inr 0) \<and>
         (\<forall>a x. onenorm_matrix_power_nnm (abs_nd A) (PyInt (2 * m + 1)) = Inr a \<and> a \<noteq> 0 \<and>
                onenorm A = Inr x \<longrightarrow> 0 < x \<and> 0 < x * ell_coeff m)"
proof -
  have k: "2 * m + 1 = int (nat (2 * m + 1))" "0 < nat (2 * m + 1)"
    using assms(2) by simp_all
  have nap: "onenorm_matrix_power_nnm (abs_nd A) (PyInt (2 * m + 1)) =
      Inr (spec_onenorm_power (abs_nd A) (nat (2 * m + 1)))"
    using onenorm_matrix_power_nnm_square [OF square_abs [OF assms(1)], of "nat (2 * m + 1)"]
    unfolding k(1) [symmetric] .
  have nA: "onenorm A = Inr (max_abs_col_sum A)" using assms(1) by (rule onenorm_square)
  have zero: "spec_onenorm_power (abs_nd A) (nat (2 * m + 1)) = 0" if "max_abs_col_sum A = 0"
    using assms(1) that k(2) by (rule spec_onenorm_power_max_zero)
  have c: "0 < ell_coeff m" using assms(2) by (simp add: ell_coeff_pos)
  have pos: "0 < max_abs_col_sum A" if "spec_onenorm_power (abs_nd A) (nat (2 * m + 1)) \<noteq> 0"
    using that zero max_abs_col_sum_nonneg [OF assms(1)] by fastforce
  have "ell A m = Inr 0" if "max_abs_col_sum A = 0" "m \<le> 84"
    using assms that(2) zero [OF that(1)] by (rule ell_zero_power_norm)
  then show ?thesis using nap nA zero pos c by auto
qed

theorem ell_division_guarded_witness:
  "square 1 (zeros 1 1) \<and> (0::int) < 3 \<and> (3::int) \<le> 84 \<and> onenorm (zeros 1 1) = Inr 0 \<and>
   onenorm_matrix_power_nnm (abs_nd (zeros 1 1)) (PyInt (2 * 3 + 1)) = Inr 0 \<and>
   ell (zeros 1 1) 3 = Inr 0 \<and>
   square 1 (eye 1 1) \<and>
   onenorm_matrix_power_nnm (abs_nd (eye 1 1)) (PyInt (2 * 3 + 1)) = Inr 1 \<and>
   (1::real) \<noteq> 0 \<and> onenorm (eye 1 1) = Inr 1 \<and> 0 < 1 * ell_coeff 3"
proof -
  have z: "square 1 (zeros 1 1)" and e: "square 1 (eye 1 1)" by (simp_all add: square_def)
  have m: "(0::int) < 3" "(3::int) \<le> 84" by simp_all
  have "max_abs_col_sum (zeros 1 1) = 0" by (rule max_abs_col_sum_zeros) simp
  then have o: "onenorm (zeros 1 1) = Inr 0"
    using onenorm_square [OF z] by (simp only:)
  have k: "(2 * 3 + 1 :: int) = int 7" by simp
  have p: "onenorm_matrix_power_nnm (abs_nd (eye 1 1)) (PyInt (2 * 3 + 1)) = Inr 1"
    unfolding k using onenorm_matrix_power_nnm_square [OF square_abs [OF e], of 7]
    unfolding spec_onenorm_power_eye1 .
  note gz = ell_division_guarded [OF z m(1)]
  note ge = ell_division_guarded [OF e m(1)]
  have c1: "onenorm_matrix_power_nnm (abs_nd (zeros 1 1)) (PyInt (2 * 3 + 1)) = Inr 0"
    using gz o by blast
  have c2: "ell (zeros 1 1) 3 = Inr 0"
    using gz o m(2) by blast
  have "(1::real) \<noteq> 0" by simp
  with ge p onenorm_eye1 have "0 < (1::real) \<and> 0 < 1 * ell_coeff 3" by blast
  then have c3: "0 < 1 * ell_coeff 3" ..
  show ?thesis
    using z m o c1 c2 e p onenorm_eye1 c3 by (simp only: simp_thms one_neq_zero)
qed

section \<open>Properties of the linear solve\<close>

lemma invertible_square:
  assumes "is_matrix n n Q"
  shows "invertible Q \<longleftrightarrow> 
    (\<exists>R. is_matrix n n R \<and> matmul Q R = eye n n \<and> matmul R Q = eye n n)"
  using assms by (auto simp: invertible_def is_matrix_def)

lemma solve_unique:
  assumes Q: "is_matrix n n Q" and R: "is_matrix n n R" 
    and RQ: "matmul R Q = eye n n"
    and x: "is_matrix n c x" and Qx: "matmul Q x = P"
  shows "x = matmul R P"
proof -
  have "x = matmul (eye n n) x" using x by (simp add: matmul_eye_left)
  also have "\<dots> = matmul (matmul R Q) x" by (simp add: RQ)
  also have "\<dots> = matmul R (matmul Q x)" using R Q x by (rule matmul_assoc)
  finally show ?thesis by (simp add: Qx)
qed

lemma solve_exists:
  assumes Q: "is_matrix n n Q" and R: "is_matrix n n R" 
    and QR: "matmul Q R = eye n n" and P: "is_matrix n c P"
  shows "matmul Q (matmul R P) = P"
proof -
  have "matmul Q (matmul R P) = matmul (matmul Q R) P"
    using Q R P by (rule matmul_assoc [symmetric])
  then show ?thesis using P by (simp add: QR matmul_eye_left)
qed

lemma linalg_solve_invertible:
  assumes Q: "is_matrix n n Q" and R: "is_matrix n n R" 
    and QR: "matmul Q R = eye n n" and RQ: "matmul R Q = eye n n" 
    and P: "is_matrix n c P"
  shows "linalg_solve Q P = Inr (matmul R P)"
proof -
  have inv: "invertible Q" using Q R QR RQ by (auto simp: invertible_square)
  have RP: "is_matrix n c (matmul R P)" using R P by (rule is_matrix_matmul)
  have "(THE x. shape x = shape P \<and> length (data x) = length (data P) \<and> matmul Q x = P) 
        = matmul R P"
  proof (rule the_equality)
    show "shape (matmul R P) = shape P \<and> length (data (matmul R P)) = length (data P) \<and> 
          matmul Q (matmul R P) = P"
      using RP P solve_exists [OF Q R QR P] by (simp add: is_matrix_def)
  next
    fix x assume "shape x = shape P \<and> length (data x) = length (data P) \<and> matmul Q x = P"
    then have "is_matrix n c x" "matmul Q x = P" using P by (simp_all add: is_matrix_def)
    then show "x = matmul R P" using solve_unique [OF Q R RQ] by blast
  qed
  then show ?thesis using inv Q P by (simp add: linalg_solve_def singular_def is_matrix_def)
qed

lemma linalg_solve_singular:
  assumes "is_matrix n n Q" "is_matrix n c P" "singular Q"
  shows "linalg_solve Q P = Inl LinAlgError"
  using assms by (simp add: linalg_solve_def is_matrix_def)

lemma linalg_solve_cases:
  assumes Q: "is_matrix n n Q" and P: "is_matrix n c P"
  shows "(singular Q \<and> linalg_solve Q P = Inl LinAlgError) \<or>
         (\<not> singular Q \<and> (\<exists>X. linalg_solve Q P = Inr X \<and> is_matrix n c X \<and> matmul Q X = P \<and>
              (\<forall>Y. is_matrix n c Y \<and> matmul Q Y = P \<longrightarrow> Y = X)))"
proof (cases "singular Q")
  case True
  then show ?thesis using linalg_solve_singular [OF Q P] by simp
next
  case False
  then obtain R where R: "is_matrix n n R" "matmul Q R = eye n n" "matmul R Q = eye n n"
    using Q by (auto simp: singular_def invertible_square)
  have "linalg_solve Q P = Inr (matmul R P)" using Q R P by (rule linalg_solve_invertible)
  moreover have "is_matrix n c (matmul R P)" using R(1) P by (rule is_matrix_matmul)
  moreover have "matmul Q (matmul R P) = P" using Q R(1,2) P by (rule solve_exists)
  moreover have "Y = matmul R P" if "is_matrix n c Y" "matmul Q Y = P" for Y
    using Q R(1,3) that by (rule solve_unique)
  ultimately show ?thesis using False by blast
qed

lemma neg_add_entries:
  assumes "is_matrix r c U" "is_matrix r c V"
  shows "add (neg U) V = mk r c (\<lambda>i j. entry V i j - entry U i j)"
  using assms
  by (intro is_matrix_eqI [of r c]) (simp_all add: entry_add [of r c] entry_neg [of r c])

lemma add_entries:
  assumes "is_matrix r c U" "is_matrix r c V"
  shows "add U V = mk r c (\<lambda>i j. entry U i j + entry V i j)"
  using assms
  by (intro is_matrix_eqI [of r c]) (simp_all add: entry_add [of r c])

lemma solve_P_Q_is_matrix:
  assumes "square n U" "square n V" "solve_P_Q U V structure = Inr X"
  shows "is_matrix n n X"
proof -
  have U: "is_matrix n n U" and V: "is_matrix n n V"
    using assms(1,2) by (simp_all add: square_def)
  have "is_matrix n n (add (neg U) V)" "is_matrix n n (add U V)" using U V by simp_all
  from linalg_solve_cases [OF this] assms(3) show ?thesis
    by (auto simp: solve_P_Q_def)
qed

section \<open>Properties of the helper class\<close>

lemma is_matrix_shape0: "is_matrix r c M \<Longrightarrow> shape M ! 0 = r"
  by (simp add: is_matrix_def)

lemma is_matrix_shape1: "is_matrix r c M \<Longrightarrow> shape M ! 1 = c"
  by (simp add: is_matrix_def)

lemma is_matrix_mpow: 
  assumes "is_matrix n n M" shows "is_matrix n n (mpow M k)"
proof (induction k)
  case 0
  show ?case by (simp add: is_matrix_shape0 [OF assms])
next
  case (Suc k)
  then show ?case using assms by (simp add: is_matrix_matmul [of n n])
qed

lemma square_mpow: "square n M \<Longrightarrow> square n (mpow M k)"
  by (simp add: square_def is_matrix_mpow)

lemma mpow_add:
  assumes "is_matrix n n M"
  shows "mpow M (a + b) = matmul (mpow M a) (mpow M b)"
proof (induction a)
  case 0
  show ?case using is_matrix_mpow [OF assms, of b] 
    by (simp add: matmul_eye_left is_matrix_shape0 [OF assms])
next
  case (Suc a)
  have "matmul (matmul M (mpow M a)) (mpow M b) = matmul M (matmul (mpow M a) (mpow M b))"
    using assms is_matrix_mpow [OF assms] by (intro matmul_assoc)
  then show ?case using Suc by simp
qed

lemma mpow_1: "is_matrix n n M \<Longrightarrow> mpow M (Suc 0) = M"
  by (simp add: matmul_eye_right is_matrix_shape0)

lemma mpow_2: 
  assumes "is_matrix n n M" shows "matmul M M = mpow M 2"
proof -
  have "mpow M (Suc 0 + Suc 0) = matmul (mpow M (Suc 0)) (mpow M (Suc 0))"
    using assms by (rule mpow_add)
  then show ?thesis using mpow_1 [OF assms] by (simp add: numeral_2_eq_2)
qed

lemma mpow_4: "is_matrix n n M \<Longrightarrow> matmul (mpow M 2) (mpow M 2) = mpow M 4"
  using mpow_add [of n M 2 2] by simp

lemma mpow_6: "is_matrix n n M \<Longrightarrow> matmul (mpow M 4) (mpow M 2) = mpow M 6"
  using mpow_add [of n M 4 2] by simp

lemma mpow_8: "is_matrix n n M \<Longrightarrow> matmul (mpow M 6) (mpow M 2) = mpow M 8"
  using mpow_add [of n M 6 2] by simp

lemma mpow_10: "is_matrix n n M \<Longrightarrow> matmul (mpow M 4) (mpow M 6) = mpow M 10"
  using mpow_add [of n M 4 6] by simp

lemma returnsI:
  "(\<And>h. cached M h \<Longrightarrow> \<exists>h'. m h = Inr (v, h') \<and> cached M h') \<Longrightarrow> returns M m v"
  by (simp add: returns_def)

lemma returnsD:
  "returns M m v \<Longrightarrow> cached M h \<Longrightarrow> \<exists>h'. m h = Inr (v, h') \<and> cached M h'"
  by (simp add: returns_def)

lemma returns_bind:
  assumes "returns M m v" "returns M (f v) w"
  shows "returns M (bind m f) w"
proof (rule returnsI)
  fix h assume "cached M h"
  then obtain h' where h': "m h = Inr (v, h')" "cached M h'"
    using assms(1) by (blast dest: returnsD)
  then obtain h'' where "f v h' = Inr (w, h'')" "cached M h''"
    using assms(2) by (blast dest: returnsD)
  then show "\<exists>h''. bind m f h = Inr (w, h'') \<and> cached M h''"
    using h' by (simp add: bind_def)
qed

lemma smart_dot: 
  "is_matrix n n X \<Longrightarrow> is_matrix n n Y \<Longrightarrow> smart_matrix_product X Y s = Inr (matmul X Y)"
  by (simp add: smart_matrix_product_def dot_is_matrix)

lemma returns_A2:
  assumes "square n M" shows "returns M A2 (mpow M 2)"
proof (rule returnsI)
  fix h assume c: "cached M h"
  have M: "is_matrix n n M" using assms by (simp add: square_def)
  show "\<exists>h'. A2 h = Inr (mpow M 2, h') \<and> cached M h'"
  proof (cases "self_A2 h")
    case (Some X)
    then show ?thesis using c by (auto simp: A2_def cached_def)
  next
    case None
    have "smart_matrix_product (self_A h) (self_A h) (self_structure h) = Inr (mpow M 2)"
      using c M by (simp add: cached_def smart_dot mpow_2)
    then have "A2 h = Inr (mpow M 2, h\<lparr>self_A2 := Some (mpow M 2)\<rparr>)"
      using None by (simp add: A2_def bind_def lift_def)
    moreover have "cached M (h\<lparr>self_A2 := Some (mpow M 2)\<rparr>)"
      using c by (simp add: cached_def)
    ultimately show ?thesis by blast
  qed
qed

lemma returns_product:
  assumes m1: "returns M m1 X" and m2: "returns M m2 Y" 
    and X: "is_matrix n n X" and Y: "is_matrix n n Y"
    and upd: "\<And>h. cached M h \<Longrightarrow> cached M (upd (matmul X Y) h)"
  shows "returns M (bind m1 (\<lambda>X. bind m2 (\<lambda>Y h'.
            bind (lift (smart_matrix_product X Y (self_structure h')))
              (\<lambda>P h''. Inr (P, upd P h'')) h'))) (matmul X Y)"
proof (rule returns_bind [OF m1], rule returns_bind [OF m2], rule returnsI)
  fix h assume "cached M h"
  then show "\<exists>h'. bind (lift (smart_matrix_product X Y (self_structure h)))
              (\<lambda>P h''. Inr (P, upd P h'')) h = Inr (matmul X Y, h') \<and> cached M h'"
    using X Y upd by (simp add: smart_dot bind_def lift_def)
qed

lemma returns_A4:
  assumes "square n M" shows "returns M A4 (mpow M 4)"
proof (rule returnsI)
  fix h assume c: "cached M h"
  have M: "is_matrix n n M" using assms by (simp add: square_def)
  show "\<exists>h'. A4 h = Inr (mpow M 4, h') \<and> cached M h'"
  proof (cases "self_A4 h")
    case (Some X)
    then show ?thesis using c by (auto simp: A4_def cached_def)
  next
    case None
    have "returns M (bind A2 (\<lambda>X. bind A2 (\<lambda>Y h'.
            bind (lift (smart_matrix_product X Y (self_structure h')))
              (\<lambda>P h''. Inr (P, h''\<lparr>self_A4 := Some P\<rparr>)) h'))) (matmul (mpow M 2) (mpow M 2))"
      using returns_A2 [OF assms] returns_A2 [OF assms] is_matrix_mpow [OF M] is_matrix_mpow [OF M]
      by (rule returns_product) (simp add: cached_def mpow_4 [OF M])
    then show ?thesis using c None by (simp add: returns_def A4_def mpow_4 [OF M])
  qed
qed

lemma returns_A6:
  assumes "square n M" shows "returns M A6 (mpow M 6)"
proof (rule returnsI)
  fix h assume c: "cached M h"
  have M: "is_matrix n n M" using assms by (simp add: square_def)
  show "\<exists>h'. A6 h = Inr (mpow M 6, h') \<and> cached M h'"
  proof (cases "self_A6 h")
    case (Some X)
    then show ?thesis using c by (auto simp: A6_def cached_def)
  next
    case None
    have "returns M (bind A4 (\<lambda>X. bind A2 (\<lambda>Y h'.
            bind (lift (smart_matrix_product X Y (self_structure h')))
              (\<lambda>P h''. Inr (P, h''\<lparr>self_A6 := Some P\<rparr>)) h'))) (matmul (mpow M 4) (mpow M 2))"
      using returns_A4 [OF assms] returns_A2 [OF assms] is_matrix_mpow [OF M] is_matrix_mpow [OF M]
      by (rule returns_product) (simp add: cached_def mpow_6 [OF M])
    then show ?thesis using c None by (simp add: returns_def A6_def mpow_6 [OF M])
  qed
qed

lemma returns_A8:
  assumes "square n M" shows "returns M A8 (mpow M 8)"
proof (rule returnsI)
  fix h assume c: "cached M h"
  have M: "is_matrix n n M" using assms by (simp add: square_def)
  show "\<exists>h'. A8 h = Inr (mpow M 8, h') \<and> cached M h'"
  proof (cases "self_A8 h")
    case (Some X)
    then show ?thesis using c by (auto simp: A8_def cached_def)
  next
    case None
    have "returns M (bind A6 (\<lambda>X. bind A2 (\<lambda>Y h'.
            bind (lift (smart_matrix_product X Y (self_structure h')))
              (\<lambda>P h''. Inr (P, h''\<lparr>self_A8 := Some P\<rparr>)) h'))) (matmul (mpow M 6) (mpow M 2))"
      using returns_A6 [OF assms] returns_A2 [OF assms] is_matrix_mpow [OF M] is_matrix_mpow [OF M]
      by (rule returns_product) (simp add: cached_def mpow_8 [OF M])
    then show ?thesis using c None by (simp add: returns_def A8_def mpow_8 [OF M])
  qed
qed

lemma returns_A10:
  assumes "square n M" shows "returns M A10 (mpow M 10)"
proof (rule returnsI)
  fix h assume c: "cached M h"
  have M: "is_matrix n n M" using assms by (simp add: square_def)
  show "\<exists>h'. A10 h = Inr (mpow M 10, h') \<and> cached M h'"
  proof (cases "self_A10 h")
    case (Some X)
    then show ?thesis using c by (auto simp: A10_def cached_def)
  next
    case None
    have "returns M (bind A4 (\<lambda>X. bind A6 (\<lambda>Y h'.
            bind (lift (smart_matrix_product X Y (self_structure h')))
              (\<lambda>P h''. Inr (P, h''\<lparr>self_A10 := Some P\<rparr>)) h'))) (matmul (mpow M 4) (mpow M 6))"
      using returns_A4 [OF assms] returns_A6 [OF assms] is_matrix_mpow [OF M] is_matrix_mpow [OF M]
      by (rule returns_product) (simp add: cached_def mpow_10 [OF M])
    then show ?thesis using c None by (simp add: returns_def A10_def mpow_10 [OF M])
  qed
qed

lemma returns_bound:
  assumes m: "returns M m (mpow M k)" and M: "square n M"
    and upd: "\<And>h. cached M h \<Longrightarrow> cached M (upd (tight_bound M k) h)"
    and e: "e = 1 / real k"
  shows "returns M (bind m (\<lambda>X. bind (lift (onenorm X))
            (\<lambda>x h'. Inr (x powr e, upd (x powr e) h')))) (tight_bound M k)"
proof (rule returns_bind [OF m], rule returnsI)
  fix h assume "cached M h"
  moreover have "onenorm (mpow M k) = Inr (max_abs_col_sum (mpow M k))"
    using square_mpow [OF M] by (rule onenorm_square)
  ultimately show "\<exists>h'. bind (lift (onenorm (mpow M k)))
            (\<lambda>x h'. Inr (x powr e, upd (x powr e) h')) h = Inr (tight_bound M k, h') \<and> cached M h'"
    using upd by (simp add: bind_def lift_def tight_bound_def e)
qed

lemma returns_d4_tight:
  assumes "square n M" shows "returns M d4_tight (tight_bound M 4)"
proof (rule returnsI)
  fix h assume c: "cached M h"
  show "\<exists>h'. d4_tight h = Inr (tight_bound M 4, h') \<and> cached M h'"
  proof (cases "self_d4_exact h")
    case (Some X)
    then show ?thesis using c by (auto simp: d4_tight_def cached_def)
  next
    case None
    have "returns M (bind A4 (\<lambda>X. bind (lift (onenorm X))
            (\<lambda>x h'. Inr (x powr (1 / 4), h'\<lparr>self_d4_exact := Some (x powr (1 / 4))\<rparr>)))) 
          (tight_bound M 4)"
      using returns_A4 [OF assms] assms
      by (rule returns_bound [where upd = "\<lambda>d h. h\<lparr>self_d4_exact := Some d\<rparr>"]) 
         (simp_all add: cached_def)
    then show ?thesis using c None by (simp add: returns_def d4_tight_def)
  qed
qed

lemma returns_d6_tight:
  assumes "square n M" shows "returns M d6_tight (tight_bound M 6)"
proof (rule returnsI)
  fix h assume c: "cached M h"
  show "\<exists>h'. d6_tight h = Inr (tight_bound M 6, h') \<and> cached M h'"
  proof (cases "self_d6_exact h")
    case (Some X)
    then show ?thesis using c by (auto simp: d6_tight_def cached_def)
  next
    case None
    have "returns M (bind A6 (\<lambda>X. bind (lift (onenorm X))
            (\<lambda>x h'. Inr (x powr (1 / 6), h'\<lparr>self_d6_exact := Some (x powr (1 / 6))\<rparr>)))) 
          (tight_bound M 6)"
      using returns_A6 [OF assms] assms
      by (rule returns_bound [where upd = "\<lambda>d h. h\<lparr>self_d6_exact := Some d\<rparr>"]) 
         (simp_all add: cached_def)
    then show ?thesis using c None by (simp add: returns_def d6_tight_def)
  qed
qed

lemma returns_d8_tight:
  assumes "square n M" shows "returns M d8_tight (tight_bound M 8)"
proof (rule returnsI)
  fix h assume c: "cached M h"
  show "\<exists>h'. d8_tight h = Inr (tight_bound M 8, h') \<and> cached M h'"
  proof (cases "self_d8_exact h")
    case (Some X)
    then show ?thesis using c by (auto simp: d8_tight_def cached_def)
  next
    case None
    have "returns M (bind A8 (\<lambda>X. bind (lift (onenorm X))
            (\<lambda>x h'. Inr (x powr (1 / 8), h'\<lparr>self_d8_exact := Some (x powr (1 / 8))\<rparr>)))) 
          (tight_bound M 8)"
      using returns_A8 [OF assms] assms
      by (rule returns_bound [where upd = "\<lambda>d h. h\<lparr>self_d8_exact := Some d\<rparr>"]) 
         (simp_all add: cached_def)
    then show ?thesis using c None by (simp add: returns_def d8_tight_def)
  qed
qed

lemma returns_d10_tight:
  assumes "square n M" shows "returns M d10_tight (tight_bound M 10)"
proof (rule returnsI)
  fix h assume c: "cached M h"
  show "\<exists>h'. d10_tight h = Inr (tight_bound M 10, h') \<and> cached M h'"
  proof (cases "self_d10_exact h")
    case (Some X)
    then show ?thesis using c by (auto simp: d10_tight_def cached_def)
  next
    case None
    have "returns M (bind A10 (\<lambda>X. bind (lift (onenorm X))
            (\<lambda>x h'. Inr (x powr (1 / 10), h'\<lparr>self_d10_exact := Some (x powr (1 / 10))\<rparr>)))) 
          (tight_bound M 10)"
      using returns_A10 [OF assms] assms
      by (rule returns_bound [where upd = "\<lambda>d h. h\<lparr>self_d10_exact := Some d\<rparr>"]) 
         (simp_all add: cached_def)
    then show ?thesis using c None by (simp add: returns_def d10_tight_def)
  qed
qed

lemma cached_init:
  "square n M \<Longrightarrow> \<exists>h. init M b = Inr h \<and> cached M h"
  by (simp add: init_def cached_def square_def is_matrix_def)

text \<open>
  Claim C9. For every square matrix and each \<open>k\<close> of 4, 6, 8 and 10, the loose bound of
  the helper is its tight bound: on every state of the helper object the two properties
  return the same result, which is \<open>onenorm(A^k)^(1/k)\<close> on the power of \<open>A\<close>.
\<close>

theorem loose_bounds_equal_tight:
  assumes "square n M" "cached M h"
  shows "d4_loose h = d4_tight h \<and> d6_loose h = d6_tight h \<and>
         d8_loose h = d8_tight h \<and> d10_loose h = d10_tight h \<and>
         (\<exists>h'. d4_tight h = Inr (max_abs_col_sum (mpow M 4) powr (1 / 4), h') \<and> cached M h') \<and>
         (\<exists>h'. d6_tight h = Inr (max_abs_col_sum (mpow M 6) powr (1 / 6), h') \<and> cached M h') \<and>
         (\<exists>h'. d8_tight h = Inr (max_abs_col_sum (mpow M 8) powr (1 / 8), h') \<and> cached M h') \<and>
         (\<exists>h'. d10_tight h = Inr (max_abs_col_sum (mpow M 10) powr (1 / 10), h') \<and> cached M h')"
proof -
  have "\<exists>h'. d4_tight h = Inr (max_abs_col_sum (mpow M 4) powr (1 / 4), h') \<and> cached M h'"
    using returnsD [OF returns_d4_tight [OF assms(1)] assms(2)] by (simp add: tight_bound_def)
  moreover have "\<exists>h'. d6_tight h = Inr (max_abs_col_sum (mpow M 6) powr (1 / 6), h') \<and> cached M h'"
    using returnsD [OF returns_d6_tight [OF assms(1)] assms(2)] by (simp add: tight_bound_def)
  moreover have "\<exists>h'. d8_tight h = Inr (max_abs_col_sum (mpow M 8) powr (1 / 8), h') \<and> cached M h'"
    using returnsD [OF returns_d8_tight [OF assms(1)] assms(2)] by (simp add: tight_bound_def)
  moreover have "\<exists>h'. d10_tight h = Inr (max_abs_col_sum (mpow M 10) powr (1 / 10), h') \<and> cached M h'"
    using returnsD [OF returns_d10_tight [OF assms(1)] assms(2)] by (simp add: tight_bound_def)
  ultimately show ?thesis
    by (simp add: d4_loose_def d6_loose_def d8_loose_def d10_loose_def)
qed

theorem loose_bounds_equal_tight_witness:
  "square 1 (eye 1 1) \<and>
   (\<exists>h. init (eye 1 1) True = Inr h \<and> cached (eye 1 1) h \<and>
        d4_loose h = d4_tight h \<and> d6_loose h = d6_tight h \<and>
        d8_loose h = d8_tight h \<and> d10_loose h = d10_tight h \<and>
        (\<exists>h'. d4_tight h = Inr (max_abs_col_sum (mpow (eye 1 1) 4) powr (1 / 4), h')))"
proof -
  have s: "square 1 (eye 1 1)" by (simp add: square_def)
  obtain h where h: "init (eye 1 1) True = Inr h" "cached (eye 1 1) h"
    using cached_init [OF s] by blast
  show ?thesis using loose_bounds_equal_tight [OF s h(2)] s h by blast
qed

section \<open>Properties of the evaluators\<close>

lemma returns_lift:
  assumes "\<And>h. cached M h \<Longrightarrow> r h = Inr x" and "returns M (g x) w"
  shows "returns M (\<lambda>h. bind (lift (r h)) g h) w"
proof (rule returnsI)
  fix h assume c: "cached M h"
  then obtain h' where "g x h = Inr (w, h')" "cached M h'"
    using assms(2) by (blast dest: returnsD)
  then show "\<exists>h'. bind (lift (r h)) g h = Inr (w, h') \<and> cached M h'"
    using assms(1) [OF c] by (simp add: bind_def lift_def)
qed

lemma returns_ret:
  assumes "\<And>h. cached M h \<Longrightarrow> f h = v"
  shows "returns M (\<lambda>h. Inr (f h, h)) v"
  using assms by (simp add: returns_def)

lemma cached_A: "cached M h \<Longrightarrow> self_A h = M"
  by (simp add: cached_def)

lemma cached_ident: "is_matrix r c M \<Longrightarrow> cached M h \<Longrightarrow> self_ident h = eye r c"
  by (simp add: cached_def is_matrix_def)

lemma rev_upt_Suc: "rev [0..<Suc q] = q # rev [0..<q]"
  by simp

lemma returns_pade3:
  assumes "square n M" shows "returns M pade3 (spec_pade 3 M)"
proof -
  have M: "is_matrix n n M" using assms by (simp add: square_def)
  note P = is_matrix_mpow [OF M]
  have e: "mpow M 0 = eye n n" by (simp add: is_matrix_shape0 [OF M])
  have u: "[0..<4] = [0, 1, 2, 3]" "[0..<3] = [0, 1, 2]" "[0..<2] = [0, 1]" "[0..<1] = [0]"
    by (simp_all add: upt_rec)
  show ?thesis
    unfolding pade3_def [abs_def] Let_def
    apply (rule returns_bind [OF returns_A2 [OF assms]])
    apply (rule returns_lift)
     apply (simp add: cached_A cached_ident [OF M] smart_dot [of n] M P)
    apply (rule returns_bind [OF returns_A2 [OF assms]])
    apply (rule returns_ret)
    apply (simp add: cached_ident [OF M] spec_pade_def pade_sum_def pade_b_def Let_def e u
             del: mpow.simps)
    done
qed

lemma returns_pade5:
  assumes "square n M" shows "returns M pade5 (spec_pade 5 M)"
proof -
  have M: "is_matrix n n M" using assms by (simp add: square_def)
  note P = is_matrix_mpow [OF M]
  have e: "mpow M 0 = eye n n" by (simp add: is_matrix_shape0 [OF M])
  have u: "[0..<4] = [0, 1, 2, 3]" "[0..<3] = [0, 1, 2]" "[0..<2] = [0, 1]" "[0..<1] = [0]"
    by (simp_all add: upt_rec)
  show ?thesis
    unfolding pade5_def [abs_def] Let_def
    apply (rule returns_bind [OF returns_A4 [OF assms]])
    apply (rule returns_bind [OF returns_A2 [OF assms]])
    apply (rule returns_lift)
     apply (simp add: cached_A cached_ident [OF M] smart_dot [of n] M P)
    apply (rule returns_bind [OF returns_A4 [OF assms]])
    apply (rule returns_bind [OF returns_A2 [OF assms]])
    apply (rule returns_ret)
    apply (simp add: cached_ident [OF M] spec_pade_def pade_sum_def pade_b_def Let_def e u
             del: mpow.simps)
    done
qed

lemma returns_pade7:
  assumes "square n M" shows "returns M pade7 (spec_pade 7 M)"
proof -
  have M: "is_matrix n n M" using assms by (simp add: square_def)
  note P = is_matrix_mpow [OF M]
  have e: "mpow M 0 = eye n n" by (simp add: is_matrix_shape0 [OF M])
  have u: "[0..<4] = [0, 1, 2, 3]" "[0..<3] = [0, 1, 2]" "[0..<2] = [0, 1]" "[0..<1] = [0]"
    by (simp_all add: upt_rec)
  show ?thesis
    unfolding pade7_def [abs_def] Let_def
    apply (rule returns_bind [OF returns_A6 [OF assms]])
    apply (rule returns_bind [OF returns_A4 [OF assms]])
    apply (rule returns_bind [OF returns_A2 [OF assms]])
    apply (rule returns_lift)
     apply (simp add: cached_A cached_ident [OF M] smart_dot [of n] M P)
    apply (rule returns_bind [OF returns_A6 [OF assms]])
    apply (rule returns_bind [OF returns_A4 [OF assms]])
    apply (rule returns_bind [OF returns_A2 [OF assms]])
    apply (rule returns_ret)
    apply (simp add: cached_ident [OF M] spec_pade_def pade_sum_def pade_b_def Let_def e u
             del: mpow.simps)
    done
qed

lemma returns_pade9:
  assumes "square n M" shows "returns M pade9 (spec_pade 9 M)"
proof -
  have M: "is_matrix n n M" using assms by (simp add: square_def)
  note P = is_matrix_mpow [OF M]
  have e: "mpow M 0 = eye n n" by (simp add: is_matrix_shape0 [OF M])
  have u: "[0..<4] = [0, 1, 2, 3]" "[0..<3] = [0, 1, 2]" "[0..<2] = [0, 1]" "[0..<1] = [0]"
    by (simp_all add: upt_rec)
  show ?thesis
    unfolding pade9_def [abs_def] Let_def
    apply (rule returns_bind [OF returns_A8 [OF assms]])
    apply (rule returns_bind [OF returns_A6 [OF assms]])
    apply (rule returns_bind [OF returns_A4 [OF assms]])
    apply (rule returns_bind [OF returns_A2 [OF assms]])
    apply (rule returns_lift)
     apply (simp add: cached_A cached_ident [OF M] smart_dot [of n] M P)
    apply (rule returns_bind [OF returns_A8 [OF assms]])
    apply (rule returns_bind [OF returns_A6 [OF assms]])
    apply (rule returns_bind [OF returns_A4 [OF assms]])
    apply (rule returns_bind [OF returns_A2 [OF assms]])
    apply (rule returns_ret)
    apply (simp add: cached_ident [OF M] spec_pade_def pade_sum_def pade_b_def Let_def e u
             del: mpow.simps)
    done
qed

lemma smul_one [simp]: "smul 1 A = A"
  by (simp add: smul_def)

lemma shape_smul [simp]: "shape (smul c A) = shape A"
  by (simp add: smul_def)

lemma mpow_smul:
  assumes "is_matrix n n M"
  shows "mpow (smul c M) k = smul (c ^ k) (mpow M k)"
proof (induction k)
  case 0
  show ?case by simp
next
  case (Suc k)
  have P: "is_matrix n n (mpow M k)" using assms by (rule is_matrix_mpow)
  have "matmul (smul c M) (smul (c ^ k) (mpow M k)) = smul c (matmul M (smul (c ^ k) (mpow M k)))"
    using assms P by (intro matmul_smul_left [of n n _ n]) simp_all
  also have "\<dots> = smul c (smul (c ^ k) (matmul M (mpow M k)))"
    using assms P by (simp add: matmul_smul_right [of n n _ n])
  finally show ?case using Suc by (simp add: smul_smul)
qed

lemma powi_scale: "(2 powi (- s)) ^ k = (2::real) powi (- (int k) * s)"
proof -
  have "(2 powi (- s)) ^ k = ((2::real) powi (- s)) powi (int k)" by simp
  also have "\<dots> = 2 powi (- s * int k)" by (rule power_int_mult [symmetric])
  finally show ?thesis by (simp add: mult.commute)
qed

lemma scaled_power:
  assumes "is_matrix n n M"
  shows "smul (2 powi (- (int k) * s)) (mpow M k) = mpow (smul (2 powi (- s)) M) k"
  by (simp add: mpow_smul [OF assms] powi_scale)

lemma returns_pade13_scaled:
  assumes "square n M" shows "returns M (pade13_scaled s) (spec_pade13 M s)"
proof -
  have M: "is_matrix n n M" using assms by (simp add: square_def)
  note P = is_matrix_mpow [OF M]
  have B: "is_matrix n n (smul (2 powi (- s)) M)" using M by simp
  note Q = is_matrix_mpow [OF B]
  have sh: "shape M ! Suc 0 = n" "shape M ! 0 = n" using M by (simp_all add: is_matrix_def)
  have sc: "smul (2 powi (- 2 * s)) (mpow M 2) = mpow (smul (2 powi (- s)) M) 2"
    "smul (2 powi (- 4 * s)) (mpow M 4) = mpow (smul (2 powi (- s)) M) 4"
    "smul (2 powi (- 6 * s)) (mpow M 6) = mpow (smul (2 powi (- s)) M) 6"
    using scaled_power [OF M, of 2 s] scaled_power [OF M, of 4 s] scaled_power [OF M, of 6 s]
    by simp_all
  show ?thesis
  proof (rule returnsI)
    fix h assume c: "cached M h"
    show "\<exists>h'. pade13_scaled s h = Inr (spec_pade13 M s, h') \<and> cached M h'"
      unfolding pade13_scaled_def Let_def cached_A [OF c]
      apply (rule returnsD [OF _ c])
      apply (rule returns_bind [OF returns_A2 [OF assms]])
      apply (rule returns_bind [OF returns_A4 [OF assms]])
      apply (rule returns_bind [OF returns_A6 [OF assms]])
      unfolding sc
      apply (rule returns_lift)
       apply (simp add: smart_dot [of n] Q del: mpow.simps)
      apply (rule returns_lift)
       apply (simp add: cached_ident [OF M] smart_dot [of n] B Q is_matrix_matmul [of n n] 
                del: mpow.simps)
      apply (rule returns_lift)
       apply (simp add: smart_dot [of n] Q del: mpow.simps)
      apply (rule returns_ret)
      apply (simp add: cached_ident [OF M] spec_pade13_def sh Let_def del: mpow.simps)
      done
  qed
qed



section \<open>Properties of the driver\<close>

lemma try_order_square:
  assumes "square n M" "0 < m" "m \<le> 74"
  shows "try_order eta theta M m = Inr (eta < theta \<and> spec_ell M m = 0)"
  using assms by (simp add: try_order_def ell_square)

lemma scaling_exponent_nonneg:
  assumes "0 \<le> eta"
  shows "scaling_exponent eta 4.25 = 
         Inr (if eta = 0 then 0 else max \<lceil>log 2 (eta / 4.25)\<rceil> 0)"
  using assms by (simp add: scaling_exponent_def)

lemma tight_bound_nonneg: "0 \<le> tight_bound M k"
  by (simp add: tight_bound_def)

lemma squarings_is_matrix:
  "is_matrix n n X \<Longrightarrow> squarings k X = Inr (((\<lambda>X. matmul X X) ^^ k) X)"
proof (induction k arbitrary: X)
  case 0
  show ?case by simp
next
  case (Suc k)
  have "dot X X = Inr (matmul X X)" using Suc.prems by (simp add: dot_is_matrix)
  moreover have "is_matrix n n (matmul X X)" using Suc.prems by (simp add: is_matrix_matmul [of n n])
  ultimately show ?case using Suc.IH [of "matmul X X"] 
    by (simp add: funpow_Suc_right del: funpow.simps)
qed

lemma returns_loose:
  assumes "square n M"
  shows "returns M d4_loose (tight_bound M 4)" "returns M d6_loose (tight_bound M 6)"
    "returns M d8_loose (tight_bound M 8)" "returns M d10_loose (tight_bound M 10)"
  using returns_d4_tight [OF assms] returns_d6_tight [OF assms] returns_d8_tight [OF assms]
    returns_d10_tight [OF assms]
  by (simp_all add: returns_def d4_loose_def d6_loose_def d8_loose_def d10_loose_def)

lemma square_smul: "square n M \<Longrightarrow> square n (smul c M)"
  by (simp add: square_def)

lemma square_spec_pade13:
  assumes "square n M"
  shows "square n (fst (spec_pade13 M s))" "square n (snd (spec_pade13 M s))"
proof -
  have M: "is_matrix n n M" and n: "0 < n" using assms by (simp_all add: square_def)
  have B: "is_matrix n n (smul (2 powi (- s)) M)" using M by simp
  note Q = is_matrix_mpow [OF B]
  have sh: "shape M ! Suc 0 = n" "shape M ! 0 = n" using M by (simp_all add: is_matrix_def)
  show "square n (fst (spec_pade13 M s))" "square n (snd (spec_pade13 M s))"
    using n B Q 
    by (simp_all add: spec_pade13_def Let_def square_def sh is_matrix_matmul [of n n] 
          del: mpow.simps)
qed

lemma expm_refines:
  assumes sq: "square n M"
  shows "expm M = spec_expm M"
proof -
  let ?d4 = "tight_bound M 4" and ?d6 = "tight_bound M 6" 
  let ?d8 = "tight_bound M 8" and ?d10 = "tight_bound M 10"
  obtain h0 where h0: "init M True = Inr h0" "cached M h0"
    using cached_init [OF sq] by blast
  obtain h1 where h1: "d4_loose h0 = Inr (?d4, h1)" "cached M h1"
    using returnsD [OF returns_loose(1) [OF sq] h0(2)] by blast
  obtain h2 where h2: "d6_loose h1 = Inr (?d6, h2)" "cached M h2"
    using returnsD [OF returns_loose(2) [OF sq] h1(2)] by blast
  obtain h3 where h3: "d4_tight h2 = Inr (?d4, h3)" "cached M h3"
    using returnsD [OF returns_d4_tight [OF sq] h2(2)] by blast
  obtain h4 where h4: "d6_loose h3 = Inr (?d6, h4)" "cached M h4"
    using returnsD [OF returns_loose(2) [OF sq] h3(2)] by blast
  obtain h5 where h5: "d6_tight h4 = Inr (?d6, h5)" "cached M h5"
    using returnsD [OF returns_d6_tight [OF sq] h4(2)] by blast
  obtain h6 where h6: "d8_loose h5 = Inr (?d8, h6)" "cached M h6"
    using returnsD [OF returns_loose(3) [OF sq] h5(2)] by blast
  obtain h7 where h7: "d8_loose h6 = Inr (?d8, h7)" "cached M h7"
    using returnsD [OF returns_loose(3) [OF sq] h6(2)] by blast
  obtain h8 where h8: "d10_loose h7 = Inr (?d10, h8)" "cached M h8"
    using returnsD [OF returns_loose(4) [OF sq] h7(2)] by blast
  obtain k3 where p3: "pade3 h2 = Inr (spec_pade 3 M, k3)"
    using returnsD [OF returns_pade3 [OF sq] h2(2)] by blast
  obtain k5 where p5: "pade5 h4 = Inr (spec_pade 5 M, k5)"
    using returnsD [OF returns_pade5 [OF sq] h4(2)] by blast
  obtain k7 where p7: "pade7 h6 = Inr (spec_pade 7 M, k7)"
    using returnsD [OF returns_pade7 [OF sq] h6(2)] by blast
  obtain k9 where p9: "pade9 h6 = Inr (spec_pade 9 M, k9)"
    using returnsD [OF returns_pade9 [OF sq] h6(2)] by blast
  define s0 :: int where "s0 = (if min (max ?d6 ?d8) (max ?d8 ?d10) = 0 then 0 
       else max \<lceil>log 2 (min (max ?d6 ?d8) (max ?d8 ?d10) / 4.25)\<rceil> 0)"
  define s where "s = s0 + spec_ell (smul (2 powi (- s0)) M) 13"
  obtain k13 where p13: "pade13_scaled s h8 = Inr (spec_pade13 M s, k13)"
    using returnsD [OF returns_pade13_scaled [OF sq] h8(2)] by blast
  have A: "self_A h2 = M" "self_A h4 = M" "self_A h6 = M" "self_A h8 = M"
    using h2 h4 h6 h8 by (simp_all add: cached_A)
  have t: "try_order eta theta M 3 = Inr (eta < theta \<and> spec_ell M 3 = 0)"
    "try_order eta theta M 5 = Inr (eta < theta \<and> spec_ell M 5 = 0)"
    "try_order eta theta M 7 = Inr (eta < theta \<and> spec_ell M 7 = 0)"
    "try_order eta theta M 9 = Inr (eta < theta \<and> spec_ell M 9 = 0)" for eta theta
    using sq by (simp_all add: try_order_square)
  have "0 \<le> min (max ?d6 ?d8) (max ?d8 ?d10)" by (simp add: tight_bound_nonneg le_max_iff_disj)
  then have se: "scaling_exponent (min (max ?d6 ?d8) (max ?d8 ?d10)) 4.25 = Inr s0"
    unfolding s0_def by (rule scaling_exponent_nonneg)
  have el: "ell (smul (2 powi (- s0)) M) 13 = Inr (spec_ell (smul (2 powi (- s0)) M) 13)"
    by (rule ell_square [OF square_smul [OF sq]]) simp_all
  have sc: "spec_scaling M = s"
    by (simp add: spec_scaling_def Let_def s_def s0_def)
  have sqr: "squarings k X = Inr (((\<lambda>X. matmul X X) ^^ k) X)" 
    if "solve_P_Q U V None = Inr X" "square n U" "square n V" for U V X k
  proof -
    have "is_matrix n n X" using that(2,3,1) by (rule solve_P_Q_is_matrix)
    then show ?thesis by (rule squarings_is_matrix)
  qed
  define C3 where "C3 = (max ?d4 ?d6 < 0.01495585217958292 \<and> spec_ell M 3 = 0)"
  define C5 where "C5 = (max ?d4 ?d6 < 0.2539398330063230 \<and> spec_ell M 5 = 0)"
  define C7 where "C7 = (max ?d6 ?d8 < 0.9504178996162932 \<and> spec_ell M 7 = 0)"
  define C9 where "C9 = (max ?d6 ?d8 < 2.097847961257068 \<and> spec_ell M 9 = 0)"
  have deg: "spec_degree M = (if C3 then 3 else if C5 then 5 else if C7 then 7 
       else if C9 then 9 else 13)"
    by (simp add: spec_degree_def Let_def C3_def C5_def C7_def C9_def)
  have t': "try_order (max ?d4 ?d6) 0.01495585217958292 M 3 = Inr C3"
    "try_order (max ?d4 ?d6) 0.2539398330063230 M 5 = Inr C5"
    "try_order (max ?d6 ?d8) 0.9504178996162932 M 7 = Inr C7"
    "try_order (max ?d6 ?d8) 2.097847961257068 M 9 = Inr C9"
    by (simp_all only: t C3_def C5_def C7_def C9_def)
  have start: "expm M = 
     (case try_order (max ?d4 ?d6) 0.01495585217958292 M 3 of Inl e \<Rightarrow> Inl e
       | Inr True \<Rightarrow>
           (case pade3 h2 of Inl e \<Rightarrow> Inl e | Inr ((U, V), h) \<Rightarrow> solve_P_Q U V None)
       | Inr False \<Rightarrow>
      (case try_order (max ?d4 ?d6) 0.2539398330063230 M 5 of Inl e \<Rightarrow> Inl e
       | Inr True \<Rightarrow>
           (case pade5 h4 of Inl e \<Rightarrow> Inl e | Inr ((U, V), h) \<Rightarrow> solve_P_Q U V None)
       | Inr False \<Rightarrow>
      (case try_order (max ?d6 ?d8) 0.9504178996162932 M 7 of Inl e \<Rightarrow> Inl e
       | Inr True \<Rightarrow>
           (case pade7 h6 of Inl e \<Rightarrow> Inl e | Inr ((U, V), h) \<Rightarrow> solve_P_Q U V None)
       | Inr False \<Rightarrow>
      (case try_order (max ?d6 ?d8) 2.097847961257068 M 9 of Inl e \<Rightarrow> Inl e
       | Inr True \<Rightarrow>
           (case pade9 h6 of Inl e \<Rightarrow> Inl e | Inr ((U, V), h) \<Rightarrow> solve_P_Q U V None)
       | Inr False \<Rightarrow>
      (case pade13_scaled s h8 of Inl e \<Rightarrow> Inl e | Inr ((U, V), h) \<Rightarrow>
      (case solve_P_Q U V None of Inl e \<Rightarrow> Inl e | Inr X \<Rightarrow>
       squarings (nat s) X))))))"
    unfolding expm_def
    by (simp only: h0 h1 h2 h3 h4 h5 h6 h7 h8 A se el s_def [symmetric] sum.case prod.case Let_def)
  show ?thesis
  proof (cases "spec_degree M = 13")
    case True
    then have n: "\<not> C3" "\<not> C5" "\<not> C7" "\<not> C9" by (auto simp: deg split: if_splits)
    have "expm M = (case solve_P_Q (fst (spec_pade13 M s)) (snd (spec_pade13 M s)) None of 
         Inl e \<Rightarrow> Inl e | Inr X \<Rightarrow> squarings (nat s) X)"
      unfolding start t' p13 using n by (simp add: case_prod_unfold)
    also have "\<dots> = (case solve_P_Q (fst (spec_pade13 M s)) (snd (spec_pade13 M s)) None of 
         Inl e \<Rightarrow> Inl e | Inr X \<Rightarrow> Inr (((\<lambda>X. matmul X X) ^^ nat s) X))"
      using sqr [OF _ square_spec_pade13 [OF sq, of s]] by (simp split: sum.splits)
    finally show ?thesis using True by (simp add: spec_expm_def Let_def sc)
  next
    case False
    then consider "C3" | "\<not> C3" "C5" | "\<not> C3" "\<not> C5" "C7" | "\<not> C3" "\<not> C5" "\<not> C7" "C9"
      by (auto simp: deg split: if_splits)
    then show ?thesis
    proof cases
      case 1
      then show ?thesis unfolding start t' p3 
        by (simp add: spec_expm_def Let_def deg case_prod_unfold)
    next
      case 2
      then show ?thesis unfolding start t' p5 
        by (simp add: spec_expm_def Let_def deg case_prod_unfold)
    next
      case 3
      then show ?thesis unfolding start t' p7 
        by (simp add: spec_expm_def Let_def deg case_prod_unfold)
    next
      case 4
      then show ?thesis unfolding start t' p9 
        by (simp add: spec_expm_def Let_def deg case_prod_unfold)
    qed
  qed
qed

lemma mpow_zeros: "0 < k \<Longrightarrow> mpow (zeros n n) k = zeros n n"
proof (induction k)
  case 0 then show ?case by simp
next
  case (Suc k)
  have "is_matrix n n (mpow (zeros n n) k)" by (rule is_matrix_mpow) simp
  then show ?case by simp
qed

lemma tight_bound_zeros: "0 < n \<Longrightarrow> 0 < k \<Longrightarrow> tight_bound (zeros n n) k = 0"
  by (simp add: tight_bound_def mpow_zeros max_abs_col_sum_zeros)

lemma spec_ell_zeros: "0 < n \<Longrightarrow> 0 < m \<Longrightarrow> spec_ell (zeros n n) m = 0"
  by (simp add: spec_ell_def Let_def spec_onenorm_power_zeros)

lemma spec_degree_zeros: "0 < n \<Longrightarrow> spec_degree (zeros n n) = 3"
  by (simp add: spec_degree_def tight_bound_zeros spec_ell_zeros)

lemma spec_pade3_zeros: 
  "0 < n \<Longrightarrow> spec_pade 3 (zeros n n) = (zeros n n, smul 120 (eye n n))"
  by (simp add: spec_pade_def pade_sum_def pade_b_def pade3_b_def Let_def mpow_zeros 
        numeral_3_eq_3 del: mpow.simps) simp

lemma solve_P_Q_zeros:
  assumes "0 < n"
  shows "solve_P_Q (zeros n n) (smul 120 (eye n n)) structure = Inr (eye n n)"
proof -
  let ?V = "smul 120 (eye n n)" and ?R = "smul (1 / 120) (eye n n)"
  have V: "is_matrix n n ?V" and R: "is_matrix n n ?R" by simp_all
  have I: "matmul (eye n n) (eye n n) = eye n n" by (rule matmul_eye_left [of n n]) simp
  have VR: "matmul ?V ?R = eye n n"
    by (simp add: matmul_smul_left [of n n _ n] matmul_smul_right [of n n _ n] I smul_smul)
  have RV: "matmul ?R ?V = eye n n"
    by (simp add: matmul_smul_left [of n n _ n] matmul_smul_right [of n n _ n] I smul_smul)
  have "linalg_solve ?V ?V = Inr (matmul ?R ?V)"
    using V R VR RV V by (rule linalg_solve_invertible)
  then show ?thesis by (simp add: solve_P_Q_def RV)
qed

text \<open>
  Claim C3. For every \<open>n \<ge> 1\<close>, \<open>expm\<close> of the zero matrix of dimension \<open>n\<close> is the
  identity matrix of dimension \<open>n\<close> (in exact arithmetic).
\<close>

theorem expm_zero_matrix:
  assumes "0 < n"
  shows "expm (zeros n n) = Inr (eye n n)"
proof -
  have "square n (zeros n n)" using assms by (simp add: square_def)
  then have "expm (zeros n n) = spec_expm (zeros n n)" by (rule expm_refines)
  then show ?thesis using assms
    by (simp add: spec_expm_def spec_degree_zeros spec_pade3_zeros solve_P_Q_zeros)
qed

theorem expm_zero_matrix_witness:
  "(0::nat) < 2 \<and> expm (zeros 2 2) = Inr (eye 2 2)"
  using expm_zero_matrix [of 2] by simp











end
